theory Spec2Isabelle
  imports Complex_Main "HOL-Library.Word"
begin

section \<open>Errors\<close>

text \<open>
  The TypeScript sources signal failure by throwing. Every throw is a value here:
  \<open>ValidationError\<close> and \<open>GuidNotFoundError\<close> are the two classes of
  \<^verbatim>\<open>common/types.ts\<close> (the first carries its message, the second the identifier),
  \<open>NetworkError\<close> is the \<^verbatim>\<open>Error\<close> that a failed HTTP request raises, and
  \<open>TypeError\<close>, \<open>SyntaxError\<close> and \<open>RangeError\<close> are the errors of the JavaScript
  runtime itself (a property read on \<^verbatim>\<open>undefined\<close>, \<^verbatim>\<open>JSON.parse\<close> on malformed text,
  \<^verbatim>\<open>toISOString\<close> on an invalid date).
\<close>

datatype error =
    ValidationError string
  | GuidNotFoundError string
  | NetworkError
  | TypeError
  | SyntaxError
  | RangeError

section \<open>Endpoint poller (\<^verbatim>\<open>fetching/endpointpoller.ts\<close>)\<close>

datatype PollerState = INITIALIZING | POLLING | BACKING_OFF | ERROR

type_synonym bytes = "8 word list"

text \<open>
  A listener is an object with one method. It acts on the state \<open>'w\<close> of the listening
  components; a throw is the \<open>Some\<close> error, returned with the state as the listener left
  it. \<open>lid\<close> is the identity of the object.
\<close>

record 'w EndpointChangeListener =
  lid :: nat
  onEndpointChange :: "string \<Rightarrow> string \<Rightarrow> 'w \<Rightarrow> error option \<times> 'w"

record 'w EndpointPoller =
  requestDelayMs :: int
  url :: string
  lastSuccessfulRequest :: int
  currentBackoffDelay :: int
  lastChecksum :: string
  currentState :: PollerState
  isPolling :: bool
  changeListeners :: "'w EndpointChangeListener list"

text \<open>
  The two library functions the poller calls: the SHA-256 hex digest of
  \<^verbatim>\<open>calculateChecksum\<close> and the UTF-8 \<^verbatim>\<open>TextDecoder\<close>. They are parameters.
\<close>

record poller_runtime =
  calculateChecksum :: "bytes \<Rightarrow> string"
  decode :: "bytes \<Rightarrow> string"

text \<open>What one \<^verbatim>\<open>axios.get\<close> gives: a rejected promise, or the body of a 2xx response.\<close>

datatype fetch_result = FetchFailed | Response bytes

definition REQUEST_TIMEOUT :: int where "REQUEST_TIMEOUT = 5000"
definition MAX_BACKOFF_DELAY :: int where "MAX_BACKOFF_DELAY = 10000"
definition BACKOFF_MULTIPLIER :: int where "BACKOFF_MULTIPLIER = 2"

text \<open>The constructor: the field initialisers of the class.\<close>

definition newEndpointPoller ::
  "int \<Rightarrow> string \<Rightarrow> 'w EndpointChangeListener list \<Rightarrow> 'w EndpointPoller" where
  "newEndpointPoller delay u ls =
     \<lparr> requestDelayMs = delay, url = u, lastSuccessfulRequest = 0,
       currentBackoffDelay = 1000, lastChecksum = [], currentState = INITIALIZING,
       isPolling = False, changeListeners = ls \<rparr>"

text \<open>
  \<^verbatim>\<open>startPolling\<close> and \<^verbatim>\<open>stopPolling\<close>, as far as the fields go; the loop that
  \<^verbatim>\<open>startPolling\<close> launches is \<open>poll\<close> below.
\<close>

definition startPolling :: "'w EndpointPoller \<Rightarrow> 'w EndpointPoller" where
  "startPolling p =
     (if isPolling p then p else p\<lparr>isPolling := True, currentState := POLLING\<rparr>)"

definition stopPolling :: "'w EndpointPoller \<Rightarrow> 'w EndpointPoller" where
  "stopPolling p = p\<lparr>isPolling := False, currentState := INITIALIZING\<rparr>"

definition addChangeListener ::
  "'w EndpointChangeListener \<Rightarrow> 'w EndpointPoller \<Rightarrow> 'w EndpointPoller" where
  "addChangeListener l p = p\<lparr>changeListeners := changeListeners p @ [l]\<rparr>"

fun removeFirst :: "nat \<Rightarrow> 'w EndpointChangeListener list \<Rightarrow> 'w EndpointChangeListener list" where
  "removeFirst i [] = []"
| "removeFirst i (l # ls) = (if lid l = i then ls else l # removeFirst i ls)"

definition removeChangeListener ::
  "'w EndpointChangeListener \<Rightarrow> 'w EndpointPoller \<Rightarrow> 'w EndpointPoller" where
  "removeChangeListener l p = p\<lparr>changeListeners := removeFirst (lid l) (changeListeners p)\<rparr>"

text \<open>
  The \<^verbatim>\<open>for ... of\<close> loop of \<^verbatim>\<open>performRequest\<close>: the listeners run one after the other,
  each awaited, and the first throw leaves the loop. The third component lists the calls
  made, in order: which listener, with which url and which text.
\<close>

type_synonym call = "nat \<times> string \<times> string"

fun notifyListeners ::
  "'w EndpointChangeListener list \<Rightarrow> string \<Rightarrow> string \<Rightarrow> 'w \<Rightarrow> error option \<times> 'w \<times> call list" where
  "notifyListeners [] u d w = (None, w, [])"
| "notifyListeners (l # ls) u d w =
     (case onEndpointChange l u d w of
        (Some e, w') \<Rightarrow> (Some e, w', [(lid l, u, d)])
      | (None, w') \<Rightarrow>
          (case notifyListeners ls u d w' of
             (r, w'', cs) \<Rightarrow> (r, w'', (lid l, u, d) # cs)))"

text \<open>
  \<^verbatim>\<open>performRequest\<close>. \<open>now\<close> is what \<^verbatim>\<open>Date.now()\<close> returns at the end of the request.
  The result is the error thrown (if any), the poller, the listeners' state and the calls
  made.
\<close>

definition performRequest ::
  "poller_runtime \<Rightarrow> fetch_result \<Rightarrow> int \<Rightarrow> 'w EndpointPoller \<Rightarrow> 'w
     \<Rightarrow> error option \<times> 'w EndpointPoller \<times> 'w \<times> call list" where
  "performRequest rt resp now p w =
     (case resp of
        FetchFailed \<Rightarrow> (Some NetworkError, p, w, [])
      | Response data \<Rightarrow>
          (let newChecksum = calculateChecksum rt data in
           if lastChecksum p \<noteq> newChecksum then
             (let p1 = p\<lparr>lastChecksum := newChecksum\<rparr>;
                  decodedData = decode rt data
              in case notifyListeners (changeListeners p1) (url p1) decodedData w of
                   (Some e, w', cs) \<Rightarrow> (Some e, p1, w', cs)
                 | (None, w', cs) \<Rightarrow> (None, p1\<lparr>lastSuccessfulRequest := now\<rparr>, w', cs))
           else (None, p\<lparr>lastSuccessfulRequest := now\<rparr>, w, [])))"

text \<open>
  \<^verbatim>\<open>handleError\<close>: the new state, the doubled and capped delay, and the sleep it makes
  (\<open>None\<close> when the poller was stopped meanwhile).
\<close>

definition handleError :: "'w EndpointPoller \<Rightarrow> 'w EndpointPoller \<times> int option" where
  "handleError p =
     (let p' = p\<lparr>currentState := BACKING_OFF,
                  currentBackoffDelay :=
                    min (currentBackoffDelay p * BACKOFF_MULTIPLIER) MAX_BACKOFF_DELAY\<rparr>
      in (p', if isPolling p' then Some (currentBackoffDelay p') else None))"

text \<open>
  One pass through the body of the \<^verbatim>\<open>while\<close> loop of \<^verbatim>\<open>poll\<close>. The outcome records
  whether the \<^verbatim>\<open>catch\<close> branch ran, the calls made to listeners, the values assigned to
  \<^verbatim>\<open>currentState\<close> in order, and the sleep that ends the pass.
\<close>

record cycle_outcome =
  failed :: bool
  calls :: "call list"
  visited :: "PollerState list"
  slept :: "int option"

definition pollIteration ::
  "poller_runtime \<Rightarrow> fetch_result \<Rightarrow> int \<Rightarrow> 'w EndpointPoller \<Rightarrow> 'w
     \<Rightarrow> 'w EndpointPoller \<times> 'w \<times> cycle_outcome" where
  "pollIteration rt resp now p w =
     (case performRequest rt resp now p w of
        (None, p1, w1, cs) \<Rightarrow>
          (let p2 = p1\<lparr>currentBackoffDelay := 1000, currentState := POLLING\<rparr>
           in (p2, w1,
               \<lparr> failed = False, calls = cs, visited = [POLLING],
                 slept = (if requestDelayMs p2 > 0 \<and> isPolling p2
                          then Some (requestDelayMs p2) else None) \<rparr>))
      | (Some e, p1, w1, cs) \<Rightarrow>
          (let p2 = p1\<lparr>currentState := ERROR\<rparr>
           in case handleError p2 of
                (p3, s) \<Rightarrow>
                  (p3, w1,
                   \<lparr> failed = True, calls = cs,
                     visited = [currentState p2, currentState p3], slept = s \<rparr>)))"

text \<open>
  The loop itself, over the responses and clock readings that the passes will meet. It
  leaves when \<^verbatim>\<open>isPolling\<close> is false, as the \<^verbatim>\<open>while\<close> condition says.
\<close>

fun poll ::
  "poller_runtime \<Rightarrow> (fetch_result \<times> int) list \<Rightarrow> 'w EndpointPoller \<Rightarrow> 'w
     \<Rightarrow> 'w EndpointPoller \<times> 'w \<times> cycle_outcome list" where
  "poll rt [] p w = (p, w, [])"
| "poll rt ((resp, now) # ins) p w =
     (if isPolling p then
        (case pollIteration rt resp now p w of
           (p', w', out) \<Rightarrow>
             (case poll rt ins p' w' of
                (p'', w'', outs) \<Rightarrow> (p'', w'', out # outs)))
      else (p, w, []))"


section \<open>Strings and numbers of the JavaScript runtime\<close>

text \<open>
  A string is a list of characters. \<open>splitOn c s\<close> is \<^verbatim>\<open>s.split(c)\<close> for a
  one-character separator: the pieces between the separators, so never an empty list
  (\<^verbatim>\<open>"".split(",")\<close> is \<^verbatim>\<open>[""]\<close>).
\<close>

fun splitOn :: "char \<Rightarrow> string \<Rightarrow> string list" where
  "splitOn sep [] = [[]]"
| "splitOn sep (c # cs) =
     (if c = sep then [] # splitOn sep cs
      else (case splitOn sep cs of
              [] \<Rightarrow> [[c]]
            | piece # pieces \<Rightarrow> (c # piece) # pieces))"

text \<open>
  \<^verbatim>\<open>trim\<close> removes white space and line terminators at both ends; among the characters
  below 256 these are tab, line feed, vertical tab, form feed, carriage return, space and
  the no-break space.
\<close>

definition isWhiteSpace :: "char \<Rightarrow> bool" where
  "isWhiteSpace c =
     (c \<in> set [CHR 0x09, CHR 0x0A, CHR 0x0B, CHR 0x0C, CHR 0x0D, CHR 0x20, CHR 0xA0])"

definition trim :: "string \<Rightarrow> string" where
  "trim s = rev (dropWhile isWhiteSpace (rev (dropWhile isWhiteSpace s)))"

text \<open>The decimal digits of a number, as a template literal prints it.\<close>

fun showNat :: "nat \<Rightarrow> string" where
  "showNat n =
     (if n < 10 then [char_of (48 + n)]
      else showNat (n div 10) @ [char_of (48 + n mod 10)])"

text \<open>
  An object used as a dictionary, and a \<^verbatim>\<open>Map\<close>, keep their keys in insertion order: they
  are lists of pairs with distinct keys. \<open>setProp\<close> is the assignment \<^verbatim>\<open>o[k] = v\<close> and
  \<^verbatim>\<open>Map.prototype.set\<close>: the value of an existing key is replaced where it stands, a new
  key goes to the end. \<open>getProp\<close> is the lookup. (An object lists keys that are array
  indices before the others; no key used here is one.)
\<close>

fun setProp :: "'k \<Rightarrow> 'v \<Rightarrow> ('k \<times> 'v) list \<Rightarrow> ('k \<times> 'v) list" where
  "setProp k v [] = [(k, v)]"
| "setProp k v ((k', v') # kvs) =
     (if k' = k then (k, v) # kvs else (k', v') # setProp k v kvs)"

definition getProp :: "('k \<times> 'v) list \<Rightarrow> 'k \<Rightarrow> 'v option" where
  "getProp kvs k = map_of kvs k"

text \<open>
  A JavaScript number: \<open>NaN\<close>, an infinity, or a finite value (\<open>-0\<close> is not told
  apart from \<open>0\<close>; both are falsy).
\<close>

datatype jsnum = NaN | PosInfinity | NegInfinity | Finite rat

definition isNaN :: "jsnum \<Rightarrow> bool" where
  "isNaN n = (n = NaN)"

text \<open>What \<^verbatim>\<open>!x\<close> tests, for a string or a number that may be \<^verbatim>\<open>null\<close>.\<close>

definition falsyString :: "string option \<Rightarrow> bool" where
  "falsyString s = (s = None \<or> s = Some [])"

definition falsyNumber :: "jsnum option \<Rightarrow> bool" where
  "falsyNumber n = (n = None \<or> n = Some NaN \<or> n = Some (Finite 0))"

text \<open>The types of \<^verbatim>\<open>transformation/matchmapper.ts\<close>.\<close>

datatype CompetitorType = HOME | AWAY

record GoalInfo =
  period :: string
  homeGoals :: jsnum
  awayGoals :: jsnum

record Score =
  type_S :: string
  home :: jsnum
  away :: jsnum

record Competitor =
  type_C :: CompetitorType
  name :: string

text \<open>
  The rendered match. \<open>scores\<close> is an object keyed by period name and \<open>competitors\<close>
  one with the two keys \<open>HOME\<close> and \<open>AWAY\<close>, in this order.
\<close>

record MappedMatch =
  id_M :: string
  status :: string
  scores :: "(string \<times> Score) list"
  startTime_M :: string
  sport :: string
  competitors :: "(CompetitorType \<times> Competitor) list"
  competition :: string

text \<open>What a \<^verbatim>\<open>GET\<close> of the mappings url gives: a rejected promise, or a response whose
  \<^verbatim>\<open>data?.mappings\<close> is absent (\<open>None\<close>) or a string.\<close>

datatype mappings_response = RequestFailed | Payload "string option"

text \<open>
  What the components take from outside the repository. \<open>isUuid\<close> is \<^verbatim>\<open>validate\<close> of
  the \<^verbatim>\<open>uuid\<close> package, \<open>toNumber\<close> is \<^verbatim>\<open>Number\<close> applied to a string,
  \<open>toISOString\<close> is \<^verbatim>\<open>new Date(n).toISOString()\<close> (\<open>None\<close> when it throws its
  \<^verbatim>\<open>RangeError\<close>), \<open>jsonOdds\<close> is \<^verbatim>\<open>JSON.parse(data).odds\<close> as far as the following
  \<^verbatim>\<open>.split\<close> can use it (an error when the text is not JSON or has no string there),
  \<open>stringify\<close> is \<^verbatim>\<open>JSON.stringify\<close> on the object that \<^verbatim>\<open>renderMatchObject\<close> returns.
  \<open>mappingsEndpoint n\<close> is the answer to the \<open>n\<close>-th request sent to the mappings url and
  \<open>dateNow n\<close> the \<open>n\<close>-th reading of the clock.
\<close>

record runtime =
  isUuid :: "string \<Rightarrow> bool"
  toNumber :: "string \<Rightarrow> jsnum"
  toISOString :: "jsnum \<Rightarrow> string option"
  jsonOdds :: "string \<Rightarrow> error + string"
  stringify :: "string \<times> MappedMatch \<Rightarrow> string"
  mappingsEndpoint :: "nat \<Rightarrow> mappings_response"
  dateNow :: "nat \<Rightarrow> int"

section \<open>Identifier resolver (\<^verbatim>\<open>fetching/guidmapper.ts\<close>)\<close>

text \<open>
  The cache \<^verbatim>\<open>mappings\<close>, and the number of requests sent so far (which response of
  the endpoint the next fetch will see).
\<close>

record GuidMapper =
  mappings :: "(string \<times> string) list"
  requests :: nat

definition newGuidMapper :: GuidMapper where
  "newGuidMapper = \<lparr> mappings = [], requests = 0 \<rparr>"

definition validateGuid :: "runtime \<Rightarrow> string \<Rightarrow> error option" where
  "validateGuid rt guid =
     (if \<not> isUuid rt guid then Some (ValidationError (''Invalid GUID format: '' @ guid))
      else None)"

text \<open>
  The callback of \<^verbatim>\<open>map\<close> in \<^verbatim>\<open>parseEntries\<close>: split on the colon, trim every piece,
  take the first two. A missing second piece is \<^verbatim>\<open>undefined\<close>, which \<^verbatim>\<open>!value\<close>
  rejects like the empty string.
\<close>

definition parseEntry :: "runtime \<Rightarrow> string \<Rightarrow> error + (string \<times> string)" where
  "parseEntry rt entry =
     (let parts = map trim (splitOn CHR '':'' entry);
          guid = (case parts of [] \<Rightarrow> None | g # _ \<Rightarrow> Some g);
          val = (case parts of _ # v # _ \<Rightarrow> Some v | _ \<Rightarrow> None)
      in if falsyString guid \<or> falsyString val
         then Inl (ValidationError ''Guid or Value empty'')
         else (case validateGuid rt (the guid) of
                 Some _ \<Rightarrow> Inl (ValidationError ''Invalid Guid'')
               | None \<Rightarrow> Inr (the guid, the val)))"

fun mapEntries :: "runtime \<Rightarrow> string list \<Rightarrow> error + (string \<times> string) list" where
  "mapEntries rt [] = Inr []"
| "mapEntries rt (e # es) =
     (case parseEntry rt e of
        Inl err \<Rightarrow> Inl err
      | Inr p \<Rightarrow> (case mapEntries rt es of Inl err \<Rightarrow> Inl err | Inr ps \<Rightarrow> Inr (p # ps)))"

definition parseEntries :: "runtime \<Rightarrow> string \<Rightarrow> error + (string \<times> string) list" where
  "parseEntries rt data =
     (case mapEntries rt (filter (\<lambda>s. s \<noteq> []) (splitOn CHR '';'' data)) of
        Inl err \<Rightarrow> Inl err
      | Inr entries \<Rightarrow>
          if entries = [] then Inl (ValidationError ''No valid entries found'')
          else Inr entries)"

text \<open>The first loop of \<^verbatim>\<open>fetchAndUpdateMappings\<close>: an identifier met twice in the new entries.\<close>

fun firstRepeated :: "string list \<Rightarrow> string list \<Rightarrow> string option" where
  "firstRepeated seenGuids [] = None"
| "firstRepeated seenGuids (g # gs) =
     (if g \<in> set seenGuids then Some g else firstRepeated (g # seenGuids) gs)"

text \<open>The second loop: an identifier that the cache already has.\<close>

definition firstKnown :: "(string \<times> string) list \<Rightarrow> string list \<Rightarrow> string option" where
  "firstKnown m gs = find (\<lambda>g. getProp m g \<noteq> None) gs"

text \<open>The third loop: \<^verbatim>\<open>mappings.set\<close> for every entry, in order.\<close>

fun setAll :: "(string \<times> string) list \<Rightarrow> (string \<times> string) list \<Rightarrow> (string \<times> string) list" where
  "setAll [] m = m"
| "setAll ((g, v) # es) m = setAll es (setProp g v m)"

definition fetchAndUpdateMappings :: "runtime \<Rightarrow> GuidMapper \<Rightarrow> error option \<times> GuidMapper" where
  "fetchAndUpdateMappings rt gm =
     (let gm1 = gm\<lparr>requests := Suc (requests gm)\<rparr> in
      case mappingsEndpoint rt (requests gm) of
        RequestFailed \<Rightarrow> (Some NetworkError, gm1)
      | Payload payload \<Rightarrow>
          if falsyString payload then (Some (ValidationError ''Invalid response format''), gm1)
          else
            (case parseEntries rt (the payload) of
               Inl err \<Rightarrow> (Some err, gm1)
             | Inr newEntries \<Rightarrow>
                 (case firstRepeated [] (map fst newEntries) of
                    Some guid \<Rightarrow>
                      (Some (ValidationError (''Duplicate GUID found in new entries: '' @ guid)), gm1)
                  | None \<Rightarrow>
                      (case firstKnown (mappings gm1) (map fst newEntries) of
                         Some guid \<Rightarrow>
                           (Some (ValidationError (''Duplicate GUID found: '' @ guid)), gm1)
                       | None \<Rightarrow>
                           (None, gm1\<lparr>mappings := setAll newEntries (mappings gm1)\<rparr>)))))"

text \<open>
  \<^verbatim>\<open>get\<close>. A cached name is returned when it is truthy (\<^verbatim>\<open>if (existing)\<close>); otherwise
  one fetch, and one more lookup.
\<close>

definition get :: "runtime \<Rightarrow> string \<Rightarrow> GuidMapper \<Rightarrow> (error + string) \<times> GuidMapper" where
  "get rt guid gm =
     (case validateGuid rt guid of
        Some err \<Rightarrow> (Inl err, gm)
      | None \<Rightarrow>
          if \<not> falsyString (getProp (mappings gm) guid)
          then (Inr (the (getProp (mappings gm) guid)), gm)
          else
            (case fetchAndUpdateMappings rt gm of
               (Some err, gm') \<Rightarrow> (Inl err, gm')
             | (None, gm') \<Rightarrow>
                 if falsyString (getProp (mappings gm') guid)
                 then (Inl (GuidNotFoundError guid), gm')
                 else (Inr (the (getProp (mappings gm') guid)), gm')))"


section \<open>Record decoder (\<^verbatim>\<open>transformation/matchmapper.ts\<close>)\<close>

text \<open>The private fields of \<^verbatim>\<open>MatchMapper\<close>; \<open>None\<close> is \<^verbatim>\<open>null\<close>.\<close>

record MatchMapper =
  rawData_P :: "string option"
  id_P :: "string option"
  sportId :: "string option"
  leagueId :: "string option"
  startTime :: "jsnum option"
  homeTeamId :: "string option"
  awayTeamId :: "string option"
  statusId :: "string option"
  goals :: "GoalInfo list"

definition clearState :: MatchMapper where
  "clearState =
     \<lparr> rawData_P = None, id_P = None, sportId = None, leagueId = None, startTime = None,
       homeTeamId = None, awayTeamId = None, statusId = None, goals = [] \<rparr>"

text \<open>
  The callback of \<^verbatim>\<open>map\<close> in \<^verbatim>\<open>parseGoals\<close>. The destructuring takes the first two
  pieces around \<^verbatim>\<open>@\<close>; without a second piece \<^verbatim>\<open>scores\<close> is \<^verbatim>\<open>undefined\<close> and
  \<^verbatim>\<open>scores.split\<close> throws a \<^verbatim>\<open>TypeError\<close>. Of the pieces around the colon the first two
  are converted; a missing one is \<^verbatim>\<open>undefined\<close>, for which \<^verbatim>\<open>isNaN\<close> is true.
\<close>

definition parseGoal :: "runtime \<Rightarrow> string \<Rightarrow> error + GoalInfo" where
  "parseGoal rt period_str =
     (let parts = splitOn CHR ''@'' period_str;
          periodId = (case parts of [] \<Rightarrow> [] | p # _ \<Rightarrow> p);
          scores_str = (case parts of _ # s # _ \<Rightarrow> Some s | _ \<Rightarrow> None)
      in if \<not> isUuid rt periodId
         then Inl (ValidationError (''Invalid period GUID: '' @ periodId))
         else (case scores_str of
                 None \<Rightarrow> Inl TypeError
               | Some sc \<Rightarrow>
                   (let nums = map (toNumber rt) (splitOn CHR '':'' sc);
                        hg = (case nums of [] \<Rightarrow> NaN | h # _ \<Rightarrow> h);
                        ag = (case nums of _ # a # _ \<Rightarrow> a | _ \<Rightarrow> NaN)
                    in if isNaN hg \<or> isNaN ag
                       then Inl (ValidationError (''Invalid goals format: '' @ sc))
                       else Inr \<lparr> period = periodId, homeGoals = hg, awayGoals = ag \<rparr>)))"

fun mapGoals :: "runtime \<Rightarrow> string list \<Rightarrow> error + GoalInfo list" where
  "mapGoals rt [] = Inr []"
| "mapGoals rt (p # ps) =
     (case parseGoal rt p of
        Inl err \<Rightarrow> Inl err
      | Inr g \<Rightarrow> (case mapGoals rt ps of Inl err \<Rightarrow> Inl err | Inr gs \<Rightarrow> Inr (g # gs)))"

definition parseGoals :: "runtime \<Rightarrow> string \<Rightarrow> error + GoalInfo list" where
  "parseGoals rt goalsString = mapGoals rt (splitOn CHR ''|'' goalsString)"

text \<open>The loop over \<^verbatim>\<open>guidFields\<close>: the first index whose field is not a UUID.\<close>

definition guidFields :: "nat list" where
  "guidFields = [0, 1, 2, 4, 5, 6]"

definition firstInvalidGuid :: "runtime \<Rightarrow> string list \<Rightarrow> nat option" where
  "firstInvalidGuid rt flds = find (\<lambda>index. \<not> isUuid rt (flds ! index)) guidFields"

text \<open>
  \<^verbatim>\<open>parseRecord\<close>. The fields are assigned as the method goes, so a throw leaves the
  mapper as far as it got: cleared but for \<^verbatim>\<open>rawData\<close> when a check of the fields fails,
  and fully assigned with no goals when \<^verbatim>\<open>parseGoals\<close> throws. The indexing
  \<open>flds ! index\<close> is only reached with at least seven fields.
\<close>

definition parseRecord :: "runtime \<Rightarrow> string \<Rightarrow> MatchMapper \<Rightarrow> error option \<times> MatchMapper" where
  "parseRecord rt record_str mm =
     (let m0 = clearState\<lparr>rawData_P := Some record_str\<rparr>;
          flds = splitOn CHR '','' record_str
      in if length flds < 7 \<or> length flds > 8
         then (Some (ValidationError
                  (''Invalid record format: expected 7 or 8 fields, got '' @ showNat (length flds))), m0)
         else (case firstInvalidGuid rt flds of
            Some index \<Rightarrow>
              (Some (ValidationError
                  (''Invalid GUID at position '' @ showNat (index + 1) @ '': '' @ flds ! index)), m0)
          | None \<Rightarrow>
              (let timestamp = toNumber rt (flds ! 3) in
               if isNaN timestamp
               then (Some (ValidationError (''Invalid timestamp: '' @ flds ! 3)), m0)
               else
                 (let m1 = m0\<lparr>id_P := Some (flds ! 0), sportId := Some (flds ! 1),
                               leagueId := Some (flds ! 2), startTime := Some timestamp,
                               homeTeamId := Some (flds ! 4), awayTeamId := Some (flds ! 5),
                               statusId := Some (flds ! 6), goals := []\<rparr>
                  in if length flds = 8 \<and> flds ! 7 \<noteq> []
                     then (case parseGoals rt (flds ! 7) of
                             Inl err \<Rightarrow> (Some err, m1)
                           | Inr gs \<Rightarrow> (None, m1\<lparr>goals := gs\<rparr>))
                     else (None, m1)))))"

text \<open>
  The loop of \<^verbatim>\<open>renderMatchObject\<close> over the goals: one lookup per period, the
  \<^verbatim>\<open>scores\<close> object assigned under the period's name.
\<close>

fun renderScores ::
  "runtime \<Rightarrow> GoalInfo list \<Rightarrow> (string \<times> Score) list \<Rightarrow> GuidMapper
     \<Rightarrow> (error + (string \<times> Score) list) \<times> GuidMapper" where
  "renderScores rt [] sc gm = (Inr sc, gm)"
| "renderScores rt (g # gs) sc gm =
     (case get rt (period g) gm of
        (Inl err, gm') \<Rightarrow> (Inl err, gm')
      | (Inr periodName, gm') \<Rightarrow>
          renderScores rt gs
            (setProp periodName \<lparr> type_S = periodName, home = homeGoals g, away = awayGoals g \<rparr> sc)
            gm')"

definition notInitialized :: "MatchMapper \<Rightarrow> bool" where
  "notInitialized mm =
     (falsyString (rawData_P mm) \<or> falsyString (id_P mm) \<or> falsyString (sportId mm)
      \<or> falsyString (leagueId mm) \<or> falsyNumber (startTime mm) \<or> falsyString (homeTeamId mm)
      \<or> falsyString (awayTeamId mm) \<or> falsyString (statusId mm))"

definition mkCompetitors :: "string \<Rightarrow> string \<Rightarrow> (CompetitorType \<times> Competitor) list" where
  "mkCompetitors homeTeam awayTeam =
     [(HOME, \<lparr> type_C = HOME, name = homeTeam \<rparr>), (AWAY, \<lparr> type_C = AWAY, name = awayTeam \<rparr>)]"

text \<open>
  \<^verbatim>\<open>renderMatchObject\<close>. The result is the object with the single key \<^verbatim>\<open>this.id\<close>,
  given as the pair of the key and its value.
\<close>

definition renderMatchObject ::
  "runtime \<Rightarrow> MatchMapper \<Rightarrow> GuidMapper \<Rightarrow> (error + (string \<times> MappedMatch)) \<times> GuidMapper" where
  "renderMatchObject rt mm gm =
     (if notInitialized mm
      then (Inl (ValidationError ''Match data not initialized. Call parseRecord first.''), gm)
      else
       (case get rt (the (sportId mm)) gm of (Inl err, gm1) \<Rightarrow> (Inl err, gm1)
        | (Inr sport_n, gm1) \<Rightarrow>
       (case get rt (the (leagueId mm)) gm1 of (Inl err, gm2) \<Rightarrow> (Inl err, gm2)
        | (Inr competition_n, gm2) \<Rightarrow>
       (case get rt (the (statusId mm)) gm2 of (Inl err, gm3) \<Rightarrow> (Inl err, gm3)
        | (Inr status_n, gm3) \<Rightarrow>
       (case get rt (the (homeTeamId mm)) gm3 of (Inl err, gm4) \<Rightarrow> (Inl err, gm4)
        | (Inr homeTeam, gm4) \<Rightarrow>
       (case get rt (the (awayTeamId mm)) gm4 of (Inl err, gm5) \<Rightarrow> (Inl err, gm5)
        | (Inr awayTeam, gm5) \<Rightarrow>
       (case renderScores rt (goals mm) [] gm5 of (Inl err, gm6) \<Rightarrow> (Inl err, gm6)
        | (Inr scores_n, gm6) \<Rightarrow>
       (case toISOString rt (the (startTime mm)) of
          None \<Rightarrow> (Inl RangeError, gm6)
        | Some isoTime \<Rightarrow>
            (Inr (the (id_P mm),
                  \<lparr> id_M = the (id_P mm), status = status_n, scores = scores_n,
                    startTime_M = isoTime, sport = sport_n,
                    competitors = mkCompetitors homeTeam awayTeam,
                    competition = competition_n \<rparr>), gm6)))))))))"


section \<open>The state of the listening components\<close>

datatype EventStatus = LIVE | PRE | REMOVED

text \<open>The string of an \<^verbatim>\<open>EventStatus\<close>: the enumeration has string values.\<close>

fun statusString :: "EventStatus \<Rightarrow> string" where
  "statusString LIVE = ''LIVE''"
| "statusString PRE = ''PRE''"
| "statusString REMOVED = ''REMOVED''"

record MatchHistoryEntry =
  timestamp :: int
  rawData :: string
  renderedData :: string
  matchStatus :: string

text \<open>
  The projector and the store are built on the same \<^verbatim>\<open>MatchMapper\<close>, which holds the one
  \<^verbatim>\<open>GuidMapper\<close>; so they act on one state. \<open>clockReads\<close> counts the readings of
  \<^verbatim>\<open>Date.now()\<close>. \<open>storage\<close> is the \<^verbatim>\<open>Map\<close> of the in-memory store.

  The projector's view is an object of objects that it hands out by reference, so these
  live in a store of their own, by address: \<open>dicts\<close> holds every dictionary from match
  identifier to match object that was created for the view (a dictionary lists the addresses
  of its match objects), \<open>objects\<close> holds the match objects, and \<open>currentState_L\<close> is
  \<^verbatim>\<open>this.currentState\<close> of \<^verbatim>\<open>LiveMatchState\<close>, the address of a dictionary.
\<close>

record world =
  guidMapper :: GuidMapper
  matchMapper :: MatchMapper
  clockReads :: nat
  storage :: "(string \<times> MatchHistoryEntry list) list"
  dicts :: "(string \<times> nat) list list"
  objects :: "MappedMatch list"
  currentState_L :: nat

text \<open>What the constructors leave: empty caches, an empty store, and \<^verbatim>\<open>{}\<close> for the view.\<close>

definition newWorld :: world where
  "newWorld =
     \<lparr> guidMapper = newGuidMapper, matchMapper = clearState, clockReads = 0, storage = [],
       dicts = [[]], objects = [], currentState_L = 0 \<rparr>"

definition LF :: char where
  "LF = CHR 0x0A"

text \<open>The two calls of the mapper that both listeners make for a line, on the shared state.\<close>

definition parseRecord_W :: "runtime \<Rightarrow> string \<Rightarrow> world \<Rightarrow> error option \<times> world" where
  "parseRecord_W rt record_str w =
     (case parseRecord rt record_str (matchMapper w) of
        (r, mm) \<Rightarrow> (r, w\<lparr>matchMapper := mm\<rparr>))"

definition renderMatchObject_W ::
  "runtime \<Rightarrow> world \<Rightarrow> (error + (string \<times> MappedMatch)) \<times> world" where
  "renderMatchObject_W rt w =
     (case renderMatchObject rt (matchMapper w) (guidMapper w) of
        (r, gm) \<Rightarrow> (r, w\<lparr>guidMapper := gm\<rparr>))"

section \<open>Live-state projector (\<^verbatim>\<open>state/livematchstate.ts\<close>)\<close>

definition INCLUDED_STATE_STATUSES :: "string list" where
  "INCLUDED_STATE_STATUSES = map statusString [PRE, LIVE]"

text \<open>
  The loop of \<^verbatim>\<open>onEndpointChange\<close> over the records. \<open>newState\<close> is the address of
  the dictionary under construction. The object that \<^verbatim>\<open>renderMatchObject\<close> returns gets
  the next address; it is entered in the dictionary when its status is included.
\<close>

fun processRecords :: "runtime \<Rightarrow> string list \<Rightarrow> nat \<Rightarrow> world \<Rightarrow> error option \<times> world" where
  "processRecords rt [] newState w = (None, w)"
| "processRecords rt (record_str # records) newState w =
     (case parseRecord_W rt record_str w of
        (Some err, w1) \<Rightarrow> (Some err, w1)
      | (None, w1) \<Rightarrow>
          (case renderMatchObject_W rt w1 of
             (Inl err, w2) \<Rightarrow> (Some err, w2)
           | (Inr (matchId, mappedMatch), w2) \<Rightarrow>
               (let address = length (objects w2);
                    w3 = w2\<lparr>objects := objects w2 @ [mappedMatch]\<rparr>;
                    w4 = (if status mappedMatch \<in> set INCLUDED_STATE_STATUSES
                          then w3\<lparr>dicts := (dicts w3)
                                   [newState := setProp matchId address (dicts w3 ! newState)]\<rparr>
                          else w3)
                in processRecords rt records newState w4)))"

text \<open>
  \<^verbatim>\<open>onEndpointChange\<close> of the projector. \<^verbatim>\<open>filter(Boolean)\<close> drops the empty lines.
  The assignment to \<^verbatim>\<open>this.currentState\<close> is the last step; every throw before it is
  logged and thrown again.
\<close>

definition onEndpointChange_L :: "runtime \<Rightarrow> string \<Rightarrow> string \<Rightarrow> world \<Rightarrow> error option \<times> world" where
  "onEndpointChange_L rt u data w =
     (case jsonOdds rt data of
        Inl err \<Rightarrow> (Some err, w)
      | Inr odds \<Rightarrow>
          (let oddsRecords = filter (\<lambda>r. r \<noteq> []) (splitOn LF odds);
               newState = length (dicts w);
               w1 = w\<lparr>dicts := dicts w @ [[]]\<rparr>
           in case processRecords rt oddsRecords newState w1 of
                (Some err, w2) \<Rightarrow> (Some err, w2)
              | (None, w2) \<Rightarrow> (None, w2\<lparr>currentState_L := newState\<rparr>)))"

text \<open>
  \<^verbatim>\<open>getCurrentState\<close>: the spread \<^verbatim>\<open>{ ...this.currentState }\<close> makes a new dictionary
  with the entries of the current one, that is, with the same addresses. The result is the
  address of the new dictionary.
\<close>

definition getCurrentState :: "world \<Rightarrow> nat \<times> world" where
  "getCurrentState w =
     (length (dicts w), w\<lparr>dicts := dicts w @ [dicts w ! currentState_L w]\<rparr>)"

text \<open>
  What is read through a dictionary: its keys with the match objects at their addresses.
  \<open>publicView\<close> is what \<^verbatim>\<open>GET /state\<close> serialises.
\<close>

definition deref :: "world \<Rightarrow> nat \<Rightarrow> (string \<times> MappedMatch) list" where
  "deref w d = map (\<lambda>(k, address). (k, objects w ! address)) (dicts w ! d)"

definition publicView :: "world \<Rightarrow> (string \<times> MappedMatch) list" where
  "publicView w = deref w (currentState_L w)"

text \<open>
  What a caller that holds the address \<open>d\<close> of a dictionary can write: an entry of the
  dictionary (\<^verbatim>\<open>d[k] = o\<close>), its removal (\<^verbatim>\<open>delete d[k]\<close>), and a field of a match object
  found in it (\<^verbatim>\<open>d[k].status = s\<close>, and likewise for the other fields).
\<close>

definition assignEntry :: "nat \<Rightarrow> string \<Rightarrow> nat \<Rightarrow> world \<Rightarrow> world" where
  "assignEntry d k address w = w\<lparr>dicts := (dicts w)[d := setProp k address (dicts w ! d)]\<rparr>"

definition deleteEntry :: "nat \<Rightarrow> string \<Rightarrow> world \<Rightarrow> world" where
  "deleteEntry d k w = w\<lparr>dicts := (dicts w)[d := filter (\<lambda>(k', _). k' \<noteq> k) (dicts w ! d)]\<rparr>"

definition assignField :: "nat \<Rightarrow> string \<Rightarrow> (MappedMatch \<Rightarrow> MappedMatch) \<Rightarrow> world \<Rightarrow> world" where
  "assignField d k f w =
     (case getProp (dicts w ! d) k of
        None \<Rightarrow> w
      | Some address \<Rightarrow> w\<lparr>objects := (objects w)[address := f (objects w ! address)]\<rparr>)"

text \<open>Every address in use is allocated.\<close>

definition wellFormed :: "world \<Rightarrow> bool" where
  "wellFormed w =
     (currentState_L w < length (dicts w)
      \<and> list_all (list_all (\<lambda>(k, address). address < length (objects w))) (dicts w))"

section \<open>History store (\<^verbatim>\<open>storage/basematchhistorystorage.ts\<close>, \<^verbatim>\<open>storage/inmemorymatchhistorystorage.ts\<close>)\<close>

text \<open>
  The in-memory store. \<^verbatim>\<open>insertMatchRecord\<close> pushes on the array found under the key, or
  on a new one, and sets the key.
\<close>

definition insertMatchRecord ::
  "string \<Rightarrow> MatchHistoryEntry \<Rightarrow> (string \<times> MatchHistoryEntry list) list
     \<Rightarrow> (string \<times> MatchHistoryEntry list) list" where
  "insertMatchRecord matchId entry st =
     (let existingHistory = (case getProp st matchId of None \<Rightarrow> [] | Some h \<Rightarrow> h)
      in setProp matchId (existingHistory @ [entry]) st)"

definition getCurrentMatchEntry ::
  "(string \<times> MatchHistoryEntry list) list \<Rightarrow> string \<Rightarrow> MatchHistoryEntry option" where
  "getCurrentMatchEntry st matchId =
     (case getProp st matchId of
        None \<Rightarrow> None
      | Some history \<Rightarrow> if history = [] then None else Some (last history))"

definition getMatchHistory ::
  "(string \<times> MatchHistoryEntry list) list \<Rightarrow> string \<Rightarrow> MatchHistoryEntry list" where
  "getMatchHistory st matchId = (case getProp st matchId of None \<Rightarrow> [] | Some h \<Rightarrow> h)"

definition clearHistory :: "(string \<times> MatchHistoryEntry list) list" where
  "clearHistory = []"

definition getAllMatchIds :: "(string \<times> MatchHistoryEntry list) list \<Rightarrow> string list" where
  "getAllMatchIds st = map fst st"

text \<open>
  \<^verbatim>\<open>getAllMatchIdsByStatus\<close> reads \<^verbatim>\<open>entries[entries.length-1].matchStatus\<close> of every key, in
  the order of the keys; on an empty array this is a property of \<^verbatim>\<open>undefined\<close>, a
  \<^verbatim>\<open>TypeError\<close>.
\<close>

fun getAllMatchIdsByStatus ::
  "string \<Rightarrow> (string \<times> MatchHistoryEntry list) list \<Rightarrow> error + string list" where
  "getAllMatchIdsByStatus s [] = Inr []"
| "getAllMatchIdsByStatus s ((matchId, entries) # rest) =
     (if entries = [] then Inl TypeError
      else (case getAllMatchIdsByStatus s rest of
              Inl err \<Rightarrow> Inl err
            | Inr results \<Rightarrow>
                Inr (if matchStatus (last entries) = s then matchId # results else results)))"

text \<open>
  \<^verbatim>\<open>processMatchUpdate\<close>: the line is parsed in any case, and rendered and recorded when
  there is no current entry or its raw data differs from the line.
\<close>

definition processMatchUpdate :: "runtime \<Rightarrow> string \<Rightarrow> string \<Rightarrow> world \<Rightarrow> error option \<times> world" where
  "processMatchUpdate rt matchId record_str w =
     (let currentEntry = getCurrentMatchEntry (storage w) matchId in
      case parseRecord_W rt record_str w of
        (Some err, w1) \<Rightarrow> (Some err, w1)
      | (None, w1) \<Rightarrow>
          if currentEntry = None \<or> rawData (the currentEntry) \<noteq> record_str then
            (case renderMatchObject_W rt w1 of
               (Inl err, w2) \<Rightarrow> (Some err, w2)
             | (Inr (k, firstMatch), w2) \<Rightarrow>
                 (let entry = \<lparr> timestamp = dateNow rt (clockReads w2), rawData = record_str,
                                renderedData = stringify rt (k, firstMatch),
                                matchStatus = status firstMatch \<rparr>
                  in (None, w2\<lparr>clockReads := Suc (clockReads w2),
                                storage := insertMatchRecord matchId entry (storage w2)\<rparr>)))
          else (None, w1))"

text \<open>
  The loop of \<^verbatim>\<open>markMissingLiveMatchesAsRemoved\<close> over the identifiers to remove: the raw
  data of the current entry is decoded again, the status of the rendered object is
  overwritten (when it is truthy), and the entry recorded.
\<close>

fun generateRemoved :: "runtime \<Rightarrow> string list \<Rightarrow> world \<Rightarrow> error option \<times> world" where
  "generateRemoved rt [] w = (None, w)"
| "generateRemoved rt (removedMatchId # rest) w =
     (case getCurrentMatchEntry (storage w) removedMatchId of
        None \<Rightarrow> (Some TypeError, w)
      | Some lastRemovedMatchIdState \<Rightarrow>
          (case parseRecord_W rt (rawData lastRemovedMatchIdState) w of
             (Some err, w1) \<Rightarrow> (Some err, w1)
           | (None, w1) \<Rightarrow>
               (case renderMatchObject_W rt w1 of
                  (Inl err, w2) \<Rightarrow> (Some err, w2)
                | (Inr (k, firstMatch), w2) \<Rightarrow>
                    (let generatedMatch =
                           (if status firstMatch \<noteq> []
                            then firstMatch\<lparr>status := statusString REMOVED\<rparr> else firstMatch);
                         generatedEntry =
                           \<lparr> timestamp = dateNow rt (clockReads w2), rawData = ''(Generated)'',
                             renderedData = stringify rt (k, generatedMatch),
                             matchStatus = statusString REMOVED \<rparr>
                     in generateRemoved rt rest
                          (w2\<lparr>clockReads := Suc (clockReads w2),
                              storage := insertMatchRecord removedMatchId generatedEntry
                                           (storage w2)\<rparr>)))))"

definition markMissingLiveMatchesAsRemoved ::
  "runtime \<Rightarrow> string list \<Rightarrow> world \<Rightarrow> error option \<times> world" where
  "markMissingLiveMatchesAsRemoved rt activeMatchIds w =
     (case getAllMatchIdsByStatus (statusString LIVE) (storage w) of
        Inl err \<Rightarrow> (Some err, w)
      | Inr liveMatchesInStorage \<Rightarrow>
          (let removedMatches = filter (\<lambda>item. item \<notin> set activeMatchIds) liveMatchesInStorage
           in generateRemoved rt removedMatches w))"

text \<open>The identifier of a line: \<^verbatim>\<open>record.split(',')[0]\<close>.\<close>

definition matchIdOf :: "string \<Rightarrow> string" where
  "matchIdOf record_str = (case splitOn CHR '','' record_str of [] \<Rightarrow> [] | f # _ \<Rightarrow> f)"

text \<open>
  The loop of \<^verbatim>\<open>onEndpointChange\<close> of the store over the records; it returns the
  identifiers pushed on \<^verbatim>\<open>activeMatchIds\<close>.
\<close>

fun processUpdates ::
  "runtime \<Rightarrow> string list \<Rightarrow> world \<Rightarrow> error option \<times> world \<times> string list" where
  "processUpdates rt [] w = (None, w, [])"
| "processUpdates rt (record_str # records) w =
     (let matchId = matchIdOf record_str in
      if \<not> isUuid rt matchId then (Some (ValidationError ''Invalid match ID format''), w, [matchId])
      else (case processMatchUpdate rt matchId record_str w of
              (Some err, w1) \<Rightarrow> (Some err, w1, [matchId])
            | (None, w1) \<Rightarrow>
                (case processUpdates rt records w1 of
                   (r, w2, ids) \<Rightarrow> (r, w2, matchId # ids))))"

definition snapshotRecords :: "string \<Rightarrow> string list" where
  "snapshotRecords odds = filter (\<lambda>r. trim r \<noteq> []) (splitOn LF odds)"

definition onEndpointChange_H :: "runtime \<Rightarrow> string \<Rightarrow> string \<Rightarrow> world \<Rightarrow> error option \<times> world" where
  "onEndpointChange_H rt u data w =
     (case jsonOdds rt data of
        Inl err \<Rightarrow> (Some err, w)
      | Inr matchData \<Rightarrow>
          (case processUpdates rt (snapshotRecords matchData) w of
             (Some err, w1, activeMatchIds) \<Rightarrow> (Some err, w1)
           | (None, w1, activeMatchIds) \<Rightarrow>
               markMissingLiveMatchesAsRemoved rt activeMatchIds w1))"

text \<open>The two listeners that \<^verbatim>\<open>MatchStateServer\<close> registers, in this order.\<close>

definition liveMatchStateListener :: "runtime \<Rightarrow> world EndpointChangeListener" where
  "liveMatchStateListener rt = \<lparr> lid = 0, onEndpointChange = onEndpointChange_L rt \<rparr>"

definition matchStorageListener :: "runtime \<Rightarrow> world EndpointChangeListener" where
  "matchStorageListener rt = \<lparr> lid = 1, onEndpointChange = onEndpointChange_H rt \<rparr>"


section \<open>The decoder's validation rules\<close>

text \<open>
  The four rules that \<^verbatim>\<open>parseRecord\<close> is compared with, on the fields of a line. Rule 3
  asks that \<^verbatim>\<open>Number\<close> gives something other than \<open>NaN\<close>. Rule 4 asks of every segment
  that the piece before the first \<^verbatim>\<open>@\<close> is a UUID and that, of the piece after it, the
  first two pieces around the colon convert to numbers; further pieces are not looked at.
\<close>

definition rule1 :: "string list \<Rightarrow> bool" where
  "rule1 flds = (length flds = 7 \<or> length flds = 8)"

definition rule2 :: "runtime \<Rightarrow> string list \<Rightarrow> bool" where
  "rule2 rt flds = (\<forall>index \<in> set guidFields. isUuid rt (flds ! index))"

definition rule3 :: "runtime \<Rightarrow> string list \<Rightarrow> bool" where
  "rule3 rt flds = (\<not> isNaN (toNumber rt (flds ! 3)))"

definition segmentAccepted :: "runtime \<Rightarrow> string \<Rightarrow> bool" where
  "segmentAccepted rt seg =
     (case splitOn CHR ''@'' seg of
        periodId # sc # _ \<Rightarrow>
          isUuid rt periodId
          \<and> (case splitOn CHR '':'' sc of
                h # a # _ \<Rightarrow> \<not> isNaN (toNumber rt h) \<and> \<not> isNaN (toNumber rt a)
              | _ \<Rightarrow> False)
      | _ \<Rightarrow> False)"

definition rule4 :: "runtime \<Rightarrow> string list \<Rightarrow> bool" where
  "rule4 rt flds =
     (length flds = 8 \<and> flds ! 7 \<noteq> [] \<longrightarrow>
        (\<forall>seg \<in> set (splitOn CHR ''|'' (flds ! 7)). segmentAccepted rt seg))"

text \<open>The mapper once \<^verbatim>\<open>parseRecord\<close> has assigned the fields of a line, before the goals.\<close>

definition assigned :: "runtime \<Rightarrow> string \<Rightarrow> MatchMapper" where
  "assigned rt r =
     (let flds = splitOn CHR '','' r in
      \<lparr> rawData_P = Some r, id_P = Some (flds ! 0), sportId = Some (flds ! 1),
        leagueId = Some (flds ! 2), startTime = Some (toNumber rt (flds ! 3)),
        homeTeamId = Some (flds ! 4), awayTeamId = Some (flds ! 5),
        statusId = Some (flds ! 6), goals = [] \<rparr>)"

section \<open>The projection that the projector is compared with\<close>

text \<open>
  The decoding of the lines of a snapshot one after the other, on the mapper and the
  resolver as the preceding lines left them, up to the first failure; and the mapping built
  from the decoded matches by entering, in order, those whose status is included.
\<close>

fun decodeAll ::
  "runtime \<Rightarrow> string list \<Rightarrow> MatchMapper \<Rightarrow> GuidMapper \<Rightarrow> error + (string \<times> MappedMatch) list" where
  "decodeAll rt [] mm gm = Inr []"
| "decodeAll rt (r # rs) mm gm =
     (case parseRecord rt r mm of
        (Some err, mm1) \<Rightarrow> Inl err
      | (None, mm1) \<Rightarrow>
          (case renderMatchObject rt mm1 gm of
             (Inl err, gm1) \<Rightarrow> Inl err
           | (Inr km, gm1) \<Rightarrow>
               (case decodeAll rt rs mm1 gm1 of
                  Inl err \<Rightarrow> Inl err
                | Inr kms \<Rightarrow> Inr (km # kms))))"

definition included :: "string \<times> MappedMatch \<Rightarrow> bool" where
  "included km = (status (snd km) = ''PRE'' \<or> status (snd km) = ''LIVE'')"

definition includeMatch ::
  "(string \<times> MappedMatch) list \<Rightarrow> string \<times> MappedMatch \<Rightarrow> (string \<times> MappedMatch) list" where
  "includeMatch acc km = (if included km then setProp (fst km) (snd km) acc else acc)"

definition includedView :: "(string \<times> MappedMatch) list \<Rightarrow> (string \<times> MappedMatch) list" where
  "includedView kms = foldl includeMatch [] kms"

definition derefDict :: "MappedMatch list \<Rightarrow> (string \<times> nat) list \<Rightarrow> (string \<times> MappedMatch) list" where
  "derefDict objs dict = map (\<lambda>(k, address). (k, objs ! address)) dict"

definition validDict :: "MappedMatch list \<Rightarrow> (string \<times> nat) list \<Rightarrow> bool" where
  "validDict objs dict = list_all (\<lambda>(k, address). address < length objs) dict"

section \<open>Concrete inputs\<close>

text \<open>
  A runtime, listeners and a poller to run the model on. The digest is replaced by a
  tagging of the bytes: all that the poller uses of SHA-256 is that it is a function of the
  bytes (and, for the first fetch, that its value is not the empty string). The decoder
  reads each byte as one character, which is UTF-8 on ASCII input.
\<close>

definition demoRuntime :: poller_runtime where
  "demoRuntime =
     \<lparr> calculateChecksum = (\<lambda>data. CHR ''#'' # map (\<lambda>b. char_of (unat b)) data),
       decode = map (\<lambda>b. char_of (unat b)) \<rparr>"

definition countingListener :: "nat \<Rightarrow> nat EndpointChangeListener" where
  "countingListener i = \<lparr> lid = i, onEndpointChange = (\<lambda>u d w. (None, Suc w)) \<rparr>"

definition throwingListener :: "nat \<Rightarrow> nat EndpointChangeListener" where
  "throwingListener i = \<lparr> lid = i, onEndpointChange = (\<lambda>u d w. (Some TypeError, w)) \<rparr>"

definition demoPoller :: "nat EndpointChangeListener list \<Rightarrow> nat EndpointPoller" where
  "demoPoller ls = startPolling (newEndpointPoller 100 ''http://feed'' ls)"

definition demoBody :: bytes where
  "demoBody = [111, 107]"


definition sevenFailures :: "(fetch_result \<times> int) list" where
  "sevenFailures = replicate 7 (FetchFailed, 0)"

text \<open>
  Listeners whose state is the log of their own invocations: each appends its identity and
  the text it was given; the second kind throws after that.
\<close>

definition loggingListener :: "nat \<Rightarrow> (nat \<times> string) list EndpointChangeListener" where
  "loggingListener i = \<lparr> lid = i, onEndpointChange = (\<lambda>u d w. (None, w @ [(i, d)])) \<rparr>"

definition failingListener :: "nat \<Rightarrow> (nat \<times> string) list EndpointChangeListener" where
  "failingListener i =
     \<lparr> lid = i, onEndpointChange = (\<lambda>u d w. (Some TypeError, w @ [(i, d)])) \<rparr>"

definition logPoller ::
  "(nat \<times> string) list EndpointChangeListener list \<Rightarrow> (nat \<times> string) list EndpointPoller" where
  "logPoller ls = startPolling (newEndpointPoller 100 ''http://feed'' ls)"


subsection \<open>A runtime for the decoder and the resolver\<close>

text \<open>
  \<open>isUuidShape\<close> is the shape 8-4-4-4-12 of hexadecimal digits. Releases of the
  \<^verbatim>\<open>uuid\<close> package also restrict the version and variant digits; the identifiers used
  below are version 4 identifiers, which every release accepts.
\<close>

definition isHexDigit :: "char \<Rightarrow> bool" where
  "isHexDigit c = (c \<in> set ''0123456789abcdefABCDEF'')"

definition isUuidShape :: "string \<Rightarrow> bool" where
  "isUuidShape s =
     (let groups = splitOn CHR ''-'' s
      in map length groups = [8, 4, 4, 4, 12] \<and> list_all (list_all isHexDigit) groups)"

text \<open>
  \<open>decimalNumber\<close> converts as \<^verbatim>\<open>Number\<close> does on the strings it accepts: white space
  around an optional sign and decimal digits with an optional fraction, \<^verbatim>\<open>Infinity\<close>, and
  the empty string, which converts to 0. It gives the exact value that the digits denote.
  It does not read exponents or the prefixed literals (\<^verbatim>\<open>0x\<close>, \<^verbatim>\<open>0o\<close>, \<^verbatim>\<open>0b\<close>), which
  \<^verbatim>\<open>Number\<close> accepts; no such string is used below.
\<close>

definition isDigit :: "char \<Rightarrow> bool" where
  "isDigit c = (c \<in> set ''0123456789'')"

definition digitsValue :: "string \<Rightarrow> int" where
  "digitsValue ds = foldl (\<lambda>acc c. 10 * acc + (of_char c - 48)) 0 ds"

definition unsignedDecimal :: "string \<Rightarrow> jsnum" where
  "unsignedDecimal s =
     (if s = ''Infinity'' then PosInfinity
      else (case splitOn CHR ''.'' s of
          [ip] \<Rightarrow> if ip \<noteq> [] \<and> list_all isDigit ip then Finite (of_int (digitsValue ip)) else NaN
        | [ip, fp] \<Rightarrow>
            if (ip \<noteq> [] \<or> fp \<noteq> []) \<and> list_all isDigit ip \<and> list_all isDigit fp
            then Finite (of_int (digitsValue ip) + of_int (digitsValue fp) / 10 ^ length fp)
            else NaN
        | _ \<Rightarrow> NaN))"

definition negate :: "jsnum \<Rightarrow> jsnum" where
  "negate n =
     (case n of NaN \<Rightarrow> NaN | PosInfinity \<Rightarrow> NegInfinity | NegInfinity \<Rightarrow> PosInfinity
      | Finite q \<Rightarrow> Finite (- q))"

definition decimalNumber :: "string \<Rightarrow> jsnum" where
  "decimalNumber s =
     (case trim s of
        [] \<Rightarrow> Finite 0
      | c # cs \<Rightarrow>
          if c = CHR ''-'' then negate (unsignedDecimal cs)
          else if c = CHR ''+'' then unsignedDecimal cs
          else unsignedDecimal (c # cs))"

text \<open>
  \<open>isoString\<close> is \<^verbatim>\<open>new Date(n).toISOString()\<close>: the time value is \<open>n\<close> truncated to
  an integer, a \<^verbatim>\<open>RangeError\<close> when \<open>n\<close> is not finite or beyond 8.64e15 milliseconds
  either side of the epoch; the date is that of the proleptic Gregorian calendar in UTC.
\<close>

function showInt :: "int \<Rightarrow> string" where
  "showInt n =
     (if n < 0 then CHR ''-'' # showInt (- n)
      else if n < 10 then [char_of (48 + nat n)]
      else showInt (n div 10) @ [char_of (48 + nat (n mod 10))])"
  by pat_completeness auto
termination
  by (relation "measure (\<lambda>n. if n < 0 then nat (- n) + 1 else nat n)") auto

definition pad :: "nat \<Rightarrow> int \<Rightarrow> string" where
  "pad width n = replicate (width - length (showInt n)) CHR ''0'' @ showInt n"

definition truncate :: "rat \<Rightarrow> int" where
  "truncate q = (if q < 0 then - \<lfloor>- q\<rfloor> else \<lfloor>q\<rfloor>)"

definition isoOfMillis :: "int \<Rightarrow> string" where
  "isoOfMillis t =
     (let days = t div 86400000;
          msOfDay = t mod 86400000;
          z = days + 719468;
          era = z div 146097;
          doe = z - era * 146097;
          yoe = (doe - doe div 1460 + doe div 36524 - doe div 146096) div 365;
          doy = doe - (365 * yoe + yoe div 4 - yoe div 100);
          mp = (5 * doy + 2) div 153;
          d = doy - (153 * mp + 2) div 5 + 1;
          m = (if mp < 10 then mp + 3 else mp - 9);
          y = yoe + era * 400 + (if m \<le> 2 then 1 else 0);
          year = (if 0 \<le> y \<and> y \<le> 9999 then pad 4 y
                  else (if y < 0 then ''-'' else ''+'') @ pad 6 \<bar>y\<bar>)
      in year @ ''-'' @ pad 2 m @ ''-'' @ pad 2 d @ ''T''
         @ pad 2 (msOfDay div 3600000) @ '':'' @ pad 2 (msOfDay div 60000 mod 60)
         @ '':'' @ pad 2 (msOfDay div 1000 mod 60) @ ''.'' @ pad 3 (msOfDay mod 1000)
         @ ''Z'')"

definition isoString :: "jsnum \<Rightarrow> string option" where
  "isoString n =
     (case n of
        Finite q \<Rightarrow>
          if \<bar>truncate q\<bar> \<le> 8640000000000000 then Some (isoOfMillis (truncate q)) else None
      | _ \<Rightarrow> None)"

text \<open>
  \<open>oddsOfJson\<close> reads a text of the exact form \<^verbatim>\<open>{"odds":"..."}\<close> whose string uses no
  escape but \<^verbatim>\<open>\n\<close>, and gives the string with the escapes replaced by line feeds, as
  \<^verbatim>\<open>JSON.parse(data).odds\<close> does. Every other text is refused with a \<^verbatim>\<open>SyntaxError\<close>
  (the real parser accepts more: white space, other escapes, other members).
\<close>

definition dq :: char where
  "dq = CHR 0x22"

definition oddsPrefix :: string where
  "oddsPrefix = ''{'' @ [dq] @ ''odds'' @ [dq] @ '':'' @ [dq]"

definition oddsSuffix :: string where
  "oddsSuffix = [dq] @ ''}''"

fun unescape :: "string \<Rightarrow> string option" where
  "unescape [] = Some []"
| "unescape [c] = (if c = CHR 0x5C \<or> c = dq \<or> of_char c < (32::int) then None else Some [c])"
| "unescape (c # c' # cs) =
     (if c = CHR 0x5C then
        (if c' = CHR ''n'' then map_option ((#) (CHR 0x0A)) (unescape cs) else None)
      else if c = dq \<or> of_char c < (32::int) then None
      else map_option ((#) c) (unescape (c' # cs)))"

fun stripPrefix :: "string \<Rightarrow> string \<Rightarrow> string option" where
  "stripPrefix [] s = Some s"
| "stripPrefix (p # ps) [] = None"
| "stripPrefix (p # ps) (c # cs) = (if p = c then stripPrefix ps cs else None)"

definition oddsOfJson :: "string \<Rightarrow> error + string" where
  "oddsOfJson data =
     (case stripPrefix oddsPrefix data of
        None \<Rightarrow> Inl SyntaxError
      | Some rest \<Rightarrow>
          (case stripPrefix (rev oddsSuffix) (rev rest) of
             None \<Rightarrow> Inl SyntaxError
           | Some body \<Rightarrow>
               (case unescape (rev body) of
                  None \<Rightarrow> Inl SyntaxError
                | Some s \<Rightarrow> Inr s)))"

text \<open>
  \<open>jsonOfMatch\<close> prints the rendered object as \<^verbatim>\<open>JSON.stringify\<close> does: the properties
  in the order of their creation, no white space, \<^verbatim>\<open>null\<close> for a number that is not
  finite. Of the characters of a string it escapes the quotation mark, the backslash and
  the line feed (the real function also escapes the other control characters); a fraction
  is printed with its exact decimal digits, which is what the real function prints for the
  short decimals that occur here.
\<close>

fun fractionDigits :: "nat \<Rightarrow> rat \<Rightarrow> string" where
  "fractionDigits 0 q = []"
| "fractionDigits (Suc n) q =
     (if q = 0 then []
      else char_of (48 + nat \<lfloor>q * 10\<rfloor>) # fractionDigits n (q * 10 - of_int \<lfloor>q * 10\<rfloor>))"

definition jsonOfNumber :: "jsnum \<Rightarrow> string" where
  "jsonOfNumber n =
     (case n of
        Finite q \<Rightarrow>
          (if q < 0 then ''-'' else []) @ showInt \<lfloor>\<bar>q\<bar>\<rfloor>
          @ (if \<bar>q\<bar> = of_int \<lfloor>\<bar>q\<bar>\<rfloor> then []
             else ''.'' @ fractionDigits 20 (\<bar>q\<bar> - of_int \<lfloor>\<bar>q\<bar>\<rfloor>))
      | _ \<Rightarrow> ''null'')"

definition jsonOfString :: "string \<Rightarrow> string" where
  "jsonOfString s =
     [dq] @ concat (map (\<lambda>c. if c = dq \<or> c = CHR 0x5C then [CHR 0x5C, c]
                              else if c = CHR 0x0A then [CHR 0x5C, CHR ''n''] else [c]) s) @ [dq]"

definition jsonOfObject :: "(string \<times> string) list \<Rightarrow> string" where
  "jsonOfObject props =
     ''{'' @ concat (map (\<lambda>(i, (k, v)). (if i = 0 then [] else '','') @ jsonOfString k @ '':'' @ v)
                      (enumerate 0 props)) @ ''}''"

definition jsonOfScore :: "Score \<Rightarrow> string" where
  "jsonOfScore s =
     jsonOfObject [(''type'', jsonOfString (type_S s)), (''home'', jsonOfNumber (home s)),
                   (''away'', jsonOfNumber (away s))]"

definition jsonOfCompetitor :: "Competitor \<Rightarrow> string" where
  "jsonOfCompetitor c =
     jsonOfObject [(''type'', jsonOfString (case type_C c of HOME \<Rightarrow> ''HOME'' | AWAY \<Rightarrow> ''AWAY'')),
                   (''name'', jsonOfString (name c))]"

definition jsonOfMatch :: "string \<times> MappedMatch \<Rightarrow> string" where
  "jsonOfMatch km =
     (case km of (k, m) \<Rightarrow>
        jsonOfObject [(k,
          jsonOfObject
            [(''id'', jsonOfString (id_M m)),
             (''status'', jsonOfString (status m)),
             (''scores'', jsonOfObject (map (\<lambda>(n, s). (n, jsonOfScore s)) (scores m))),
             (''startTime'', jsonOfString (startTime_M m)),
             (''sport'', jsonOfString (sport m)),
             (''competitors'',
                jsonOfObject (map (\<lambda>(t, c). (case t of HOME \<Rightarrow> ''HOME'' | AWAY \<Rightarrow> ''AWAY'',
                                              jsonOfCompetitor c)) (competitors m))),
             (''competition'', jsonOfString (competition m))])])"

definition toJson :: "string \<Rightarrow> string" where
  "toJson odds =
     oddsPrefix @ concat (map (\<lambda>c. if c = CHR 0x0A then [CHR 0x5C, CHR ''n''] else [c]) odds)
       @ oddsSuffix"

definition jsRuntime :: "(nat \<Rightarrow> mappings_response) \<Rightarrow> runtime" where
  "jsRuntime endpoint =
     \<lparr> isUuid = isUuidShape, toNumber = decimalNumber, toISOString = isoString,
       jsonOdds = oddsOfJson, stringify = jsonOfMatch, mappingsEndpoint = endpoint,
       dateNow = (\<lambda>n. 1729839700000 + int n) \<rparr>"

text \<open>The record and the mappings of scenario S1 of the specification (the unit test of the decoder).\<close>

definition s1Prefix :: string where
  "s1Prefix = ''ec517b6c-6ed8-4449-ad9b-0a1dbbbf8fb9,9860e748-1f53-45ed-9a3f-2eeb46550083,13605dbb-fb95-4373-8354-dbce8272086c,''"

definition s1Suffix :: string where
  "s1Suffix = '',c22ca89b-50db-4a90-84d3-25daf31de9db,54963ddf-ddc6-41b6-a7d1-3e2b76f531c0,93f346fd-c921-4f67-b4c3-64fe1f466140''"

definition s1Periods :: string where
  "s1Periods = '',5c3a00b4-6dca-4439-8340-9eba10777517@14:9|dcbade30-42ad-47bc-8698-71ff7e6c337f@8:3''"

definition s1Record :: string where
  "s1Record = s1Prefix @ ''1729839678453'' @ s1Suffix @ s1Periods"

definition s1Mappings :: string where
  "s1Mappings = ''9860e748-1f53-45ed-9a3f-2eeb46550083:FOOTBALL;13605dbb-fb95-4373-8354-dbce8272086c:UEFA Champions League;c22ca89b-50db-4a90-84d3-25daf31de9db:Bayern Munich;54963ddf-ddc6-41b6-a7d1-3e2b76f531c0:Juventus;93f346fd-c921-4f67-b4c3-64fe1f466140:LIVE;5c3a00b4-6dca-4439-8340-9eba10777517:CURRENT;dcbade30-42ad-47bc-8698-71ff7e6c337f:PERIOD_1''"

definition s1Endpoint :: "nat \<Rightarrow> mappings_response" where
  "s1Endpoint n = (if n = 0 then Payload (Some s1Mappings) else RequestFailed)"


subsection \<open>Identifiers and endpoints for the resolver\<close>

text \<open>
  Two identifiers of the resolver's unit tests. \<open>rebindEndpoint\<close> answers the first and
  the second request with the same pair; \<open>malformedEndpoint\<close> answers the second request
  with that pair followed by a segment whose identifier is not a UUID.
\<close>

definition madrid :: string where
  "madrid = ''ca657bde-7b35-4627-9f8b-809ea1f79340''"

definition barcelona :: string where
  "barcelona = ''6fa5777e-94a5-4f20-8a1a-055039d619c6''"

definition rebindEndpoint :: "nat \<Rightarrow> mappings_response" where
  "rebindEndpoint n =
     (if n = 0 then Payload (Some (madrid @ '':Real Madrid''))
      else if n = 1 then Payload (Some (madrid @ '':Real Madrid''))
      else RequestFailed)"

definition malformedEndpoint :: "nat \<Rightarrow> mappings_response" where
  "malformedEndpoint n =
     (if n = 0 then Payload (Some (madrid @ '':Real Madrid''))
      else if n = 1 then Payload (Some (madrid @ '':Real Madrid;invalid:entry''))
      else RequestFailed)"

subsection \<open>Lines for the decoder\<close>

text \<open>
  Variations of the line of S1: the start time \<open>0\<close>, no start time at all, a fraction,
  \<open>Infinity\<close>; goals with a fraction, a third number and a second \<open>@\<close>; a period with
  no \<open>@\<close>; and a line of six fields.
\<close>

definition zeroRecord :: string where
  "zeroRecord = s1Prefix @ ''0'' @ s1Suffix"

definition emptyTimeRecord :: string where
  "emptyTimeRecord = s1Prefix @ s1Suffix"

definition fractionRecord :: string where
  "fractionRecord = s1Prefix @ ''1.5'' @ s1Suffix"

definition infinityRecord :: string where
  "infinityRecord = s1Prefix @ ''Infinity'' @ s1Suffix"

definition looseGoalsRecord :: string where
  "looseGoalsRecord =
     s1Prefix @ ''1729839678453'' @ s1Suffix @ '',5c3a00b4-6dca-4439-8340-9eba10777517@1.5:2:7@x''"

definition noScoresRecord :: string where
  "noScoresRecord =
     s1Prefix @ ''1729839678453'' @ s1Suffix @ '',5c3a00b4-6dca-4439-8340-9eba10777517''"

definition sixFieldRecord :: string where
  "sixFieldRecord = s1Prefix @ ''1729839678453,c22ca89b-50db-4a90-84d3-25daf31de9db,54963ddf-ddc6-41b6-a7d1-3e2b76f531c0''"

subsection \<open>Snapshots for the store\<close>

text \<open>
  The match of S1, which is \<open>LIVE\<close>, and a second match whose status is \<open>PRE\<close>.
  Snapshot A holds both, snapshot B none, snapshot X the first alone; \<open>snapshotDup\<close>
  holds two lines for the first match with different scores. \<open>lateEndpoint\<close> fails the
  first request and answers the second. \<open>summary\<close> shows of every entry of the store
  its raw data and its status.
\<close>

definition liveId :: string where
  "liveId = ''ec517b6c-6ed8-4449-ad9b-0a1dbbbf8fb9''"

definition preId :: string where
  "preId = ''995e0722-4118-4f8e-a517-82f6ea240673''"

definition preRecord :: string where
  "preRecord = preId @ '',9860e748-1f53-45ed-9a3f-2eeb46550083,13605dbb-fb95-4373-8354-dbce8272086c,1729839678453,c22ca89b-50db-4a90-84d3-25daf31de9db,54963ddf-ddc6-41b6-a7d1-3e2b76f531c0,ac68a563-e511-4776-b2ee-cd395c7dc424''"

definition rescoredRecord :: string where
  "rescoredRecord =
     s1Prefix @ ''1729839678453'' @ s1Suffix @ '',5c3a00b4-6dca-4439-8340-9eba10777517@15:9''"

definition storeMappings :: string where
  "storeMappings = s1Mappings @ '';ac68a563-e511-4776-b2ee-cd395c7dc424:PRE''"

definition storeEndpoint :: "nat \<Rightarrow> mappings_response" where
  "storeEndpoint n = (if n = 0 then Payload (Some storeMappings) else RequestFailed)"

definition lateEndpoint :: "nat \<Rightarrow> mappings_response" where
  "lateEndpoint n = (if n = 1 then Payload (Some storeMappings) else RequestFailed)"

definition snapshotA :: string where
  "snapshotA = toJson (s1Record @ [LF] @ preRecord)"

definition snapshotB :: string where
  "snapshotB = toJson []"

definition snapshotDup :: string where
  "snapshotDup = toJson (s1Record @ [LF] @ rescoredRecord)"

definition deliver :: "(nat \<Rightarrow> mappings_response) \<Rightarrow> string \<Rightarrow> world \<Rightarrow> error option \<times> world" where
  "deliver endpoint data w = onEndpointChange_H (jsRuntime endpoint) ''http://feed'' data w"

definition afterA :: world where
  "afterA = snd (deliver storeEndpoint snapshotA newWorld)"

definition snapshotX :: string where
  "snapshotX = toJson s1Record"

definition summary :: "world \<Rightarrow> (string \<times> (string \<times> string) list) list" where
  "summary w = map (\<lambda>(k, h). (k, map (\<lambda>e. (rawData e, matchStatus e)) h)) (storage w)"

text \<open>
  A snapshot of the second match and of a line whose first field is no identifier; and one
  of the second match and of a line with start time \<open>0\<close> for a third match.
\<close>

definition badIdRecord :: string where
  "badIdRecord = ''bad-id,9860e748-1f53-45ed-9a3f-2eeb46550083,13605dbb-fb95-4373-8354-dbce8272086c,1729839678453,c22ca89b-50db-4a90-84d3-25daf31de9db,54963ddf-ddc6-41b6-a7d1-3e2b76f531c0,ac68a563-e511-4776-b2ee-cd395c7dc424''"

definition snapshotBadId :: string where
  "snapshotBadId = toJson (preRecord @ [LF] @ badIdRecord)"

definition thirdId :: string where
  "thirdId = ''0b1c0d2e-3f4a-4b5c-8d6e-7f8091a2b3c4''"

definition zeroTimeRecord :: string where
  "zeroTimeRecord = thirdId @ '',9860e748-1f53-45ed-9a3f-2eeb46550083,13605dbb-fb95-4373-8354-dbce8272086c,0,c22ca89b-50db-4a90-84d3-25daf31de9db,54963ddf-ddc6-41b6-a7d1-3e2b76f531c0,ac68a563-e511-4776-b2ee-cd395c7dc424''"

definition snapshotZeroTime :: string where
  "snapshotZeroTime = toJson (preRecord @ [LF] @ zeroTimeRecord)"

subsection \<open>Snapshots for the projector\<close>

definition snapshotBad :: string where
  "snapshotBad = toJson (preRecord @ [LF] @ sixFieldRecord)"

definition project :: "(nat \<Rightarrow> mappings_response) \<Rightarrow> string \<Rightarrow> world \<Rightarrow> error option \<times> world" where
  "project endpoint data w = onEndpointChange_L (jsRuntime endpoint) ''http://feed'' data w"

definition statuses :: "(string \<times> MappedMatch) list \<Rightarrow> (string \<times> string) list" where
  "statuses view = map (\<lambda>(k, m). (k, status m)) view"

definition withStatus :: "string \<Rightarrow> MappedMatch \<Rightarrow> MappedMatch" where
  "withStatus s m = m\<lparr>status := s\<rparr>"

section \<open>Properties: endpoint poller\<close>

lemma performRequest_fields:
  "performRequest rt resp now p w = (r, p', w', cs) \<Longrightarrow>
     isPolling p' = isPolling p \<and> currentBackoffDelay p' = currentBackoffDelay p
     \<and> requestDelayMs p' = requestDelayMs p \<and> changeListeners p' = changeListeners p
     \<and> url p' = url p \<and> currentState p' = currentState p"
  by (auto simp: performRequest_def Let_def split: fetch_result.splits if_splits prod.splits option.splits)

lemma pollIteration_failed:
  assumes "pollIteration rt resp now p w = (p', w', out)" "failed out"
  shows "isPolling p' = isPolling p
       \<and> currentBackoffDelay p' = min (currentBackoffDelay p * 2) 10000
       \<and> currentState p' = BACKING_OFF
       \<and> visited out = [ERROR, BACKING_OFF]
       \<and> slept out = (if isPolling p then Some (currentBackoffDelay p') else None)"
proof -
  obtain r p1 w1 cs where pr: "performRequest rt resp now p w = (r, p1, w1, cs)"
    by (cases "performRequest rt resp now p w") auto
  note f = performRequest_fields [OF pr]
  from assms pr obtain e where "r = Some e"
    by (cases r) (auto simp: pollIteration_def Let_def)
  with assms pr f show ?thesis
    by (auto simp: pollIteration_def handleError_def Let_def BACKOFF_MULTIPLIER_def MAX_BACKOFF_DELAY_def)
qed

lemma pollIteration_succeeded:
  assumes "pollIteration rt resp now p w = (p', w', out)" "\<not> failed out"
  shows "isPolling p' = isPolling p \<and> currentBackoffDelay p' = 1000 \<and> currentState p' = POLLING
       \<and> slept out = (if requestDelayMs p > 0 \<and> isPolling p then Some (requestDelayMs p) else None)"
proof -
  obtain r p1 w1 cs where pr: "performRequest rt resp now p w = (r, p1, w1, cs)"
    by (cases "performRequest rt resp now p w") auto
  note f = performRequest_fields [OF pr]
  from assms pr have "r = None"
    by (cases r) (auto simp: pollIteration_def Let_def handleError_def)
  with assms pr f show ?thesis
    by (auto simp: pollIteration_def Let_def)
qed

lemma scale_up:
  fixes c m :: int
  assumes "10000 \<le> c" "1 \<le> m"
  shows "10000 \<le> c * m"
proof -
  from assms have "c * 1 \<le> c * m" by (intro mult_left_mono) auto
  with assms show ?thesis by linarith
qed

lemma backoff_closed_form:
  fixes b :: int
  assumes "0 < b"
  shows "min (min (b * 2) 10000 * 2 ^ k) 10000 = min (b * 2 ^ Suc k) 10000"
proof (cases "b * 2 \<le> 10000")
  case True
  then show ?thesis by (simp add: mult.assoc)
next
  case False
  have k1: "(1::int) \<le> 2 ^ k" by simp
  from False have big: "10000 \<le> b * 2" by simp
  have l: "10000 \<le> b * 2 * 2 ^ k" by (rule scale_up [OF big k1])
  have r: "(10000::int) \<le> 10000 * 2 ^ k" by (rule scale_up [OF _ k1]) simp
  from False have m: "min (b * 2) 10000 = 10000" by simp
  have e: "b * 2 ^ Suc k = b * 2 * 2 ^ k" by simp
  show ?thesis unfolding m e using l r by (simp only: min_def split: if_splits) linarith
qed

lemma poll_all_failed:
  assumes "isPolling p" "0 < currentBackoffDelay p" "ins \<noteq> []"
    "poll rt ins p w = (p', w', outs)" "\<forall>out \<in> set outs. failed out"
  shows "length outs = length ins
       \<and> isPolling p'
       \<and> currentBackoffDelay p' = min (currentBackoffDelay p * 2 ^ length ins) 10000
       \<and> currentState p' = BACKING_OFF
       \<and> slept (last outs) = Some (currentBackoffDelay p')"
  using assms
proof (induction ins arbitrary: p w p' w' outs)
  case Nil
  then show ?case by simp
next
  case (Cons a ins)
  obtain resp now where a: "a = (resp, now)" by (cases a)
  obtain p1 w1 out where it: "pollIteration rt resp now p w = (p1, w1, out)"
    by (cases "pollIteration rt resp now p w") auto
  obtain p2 w2 outs2 where rest: "poll rt ins p1 w1 = (p2, w2, outs2)"
    by (cases "poll rt ins p1 w1") auto
  from Cons.prems a it rest have eqs: "p' = p2" "w' = w2" "outs = out # outs2"
    by auto
  with Cons.prems have fo: "failed out" and fr: "\<forall>x \<in> set outs2. failed x" by auto
  note one = pollIteration_failed [OF it fo]
  show ?case
  proof (cases ins)
    case Nil
    with rest have "p2 = p1" "outs2 = []" by auto
    with one eqs Nil Cons.prems(1) show ?thesis by simp
  next
    case (Cons b ins')
    then have ne: "ins \<noteq> []" by simp
    from one Cons.prems have p1: "isPolling p1" "0 < currentBackoffDelay p1" by auto
    from Cons.IH [OF p1 ne rest fr] 
    have ih: "length outs2 = length ins" "isPolling p2"
      "currentBackoffDelay p2 = min (currentBackoffDelay p1 * 2 ^ length ins) 10000"
      "currentState p2 = BACKING_OFF" "slept (last outs2) = Some (currentBackoffDelay p2)"
      by auto
    from ih(1) ne have "outs2 \<noteq> []" by auto
    with ih one eqs backoff_closed_form [OF Cons.prems(2), of "length ins"]
    show ?thesis by simp
  qed
qed


lemma pollIteration_failed_iff:
  "pollIteration rt resp now p w = (p', w', out) \<Longrightarrow>
     failed out = (fst (performRequest rt resp now p w) \<noteq> None)"
  by (cases "performRequest rt resp now p w")
     (auto simp: pollIteration_def Let_def handleError_def split: option.splits)

text \<open>
  C5. Start from a polling poller whose delay is the start-of-backoff value 1000 (as it is
  after construction and after every successful pass), and let \<open>k \<ge> 1\<close> passes of the loop
  fail in a row. Then the delay is \<open>min (1000 * 2 ^ k) 10000\<close>, the state is
  \<open>BACKING_OFF\<close>, and the sleep that ended the last pass lasted exactly the delay. One
  pass that does not fail sets the delay back to 1000 and the state to \<open>POLLING\<close>.
\<close>

theorem backoff_doubles_up_to_cap:
  assumes "isPolling p" "currentBackoffDelay p = 1000" "ins \<noteq> []"
    "poll rt ins p w = (p', w', outs)" "\<forall>out \<in> set outs. failed out"
  shows "length outs = length ins
       \<and> currentBackoffDelay p' = min (1000 * 2 ^ length ins) 10000
       \<and> currentState p' = BACKING_OFF
       \<and> slept (last outs) = Some (currentBackoffDelay p')
       \<and> (\<forall>resp now p1 w1 out.
             pollIteration rt resp now p' w' = (p1, w1, out) \<and> \<not> failed out \<longrightarrow>
               currentBackoffDelay p1 = 1000 \<and> currentState p1 = POLLING)"
proof -
  from assms(2) have pos: "0 < currentBackoffDelay p" by simp
  from poll_all_failed [OF assms(1) pos assms(3) assms(4) assms(5)] assms(2)
  have "length outs = length ins
       \<and> currentBackoffDelay p' = min (1000 * 2 ^ length ins) 10000
       \<and> currentState p' = BACKING_OFF
       \<and> slept (last outs) = Some (currentBackoffDelay p')" by simp
  moreover have "\<forall>resp now p1 w1 out.
             pollIteration rt resp now p' w' = (p1, w1, out) \<and> \<not> failed out \<longrightarrow>
               currentBackoffDelay p1 = 1000 \<and> currentState p1 = POLLING"
  proof (intro allI impI)
    fix resp now p1 w1 out
    assume "pollIteration rt resp now p' w' = (p1, w1, out) \<and> \<not> failed out"
    then have "pollIteration rt resp now p' w' = (p1, w1, out)" "\<not> failed out" by simp_all
    from pollIteration_succeeded [OF this]
    show "currentBackoffDelay p1 = 1000 \<and> currentState p1 = POLLING" by simp
  qed
  ultimately show ?thesis by blast
qed

theorem backoff_doubles_up_to_cap_witness:
  "currentBackoffDelay (fst (poll demoRuntime sevenFailures (demoPoller []) 0)) = 10000
   \<and> currentState (fst (poll demoRuntime sevenFailures (demoPoller []) 0)) = BACKING_OFF
   \<and> slept (last (snd (snd (poll demoRuntime sevenFailures (demoPoller []) 0)))) = Some 10000
   \<and> currentBackoffDelay
        (fst (pollIteration demoRuntime (Response demoBody) 1
               (fst (poll demoRuntime sevenFailures (demoPoller []) 0)) 0)) = 1000"
proof -
  let ?r = "poll demoRuntime sevenFailures (demoPoller []) 0"
  let ?s = "pollIteration demoRuntime (Response demoBody) 1 (fst ?r) (fst (snd ?r))"
  have h1: "isPolling (demoPoller [])" by code_simp
  have h2: "currentBackoffDelay (demoPoller []) = 1000" by code_simp
  have h3: "sevenFailures \<noteq> []" by code_simp
  have h4: "?r = (fst ?r, fst (snd ?r), snd (snd ?r))" by simp
  have h5: "\<forall>out \<in> set (snd (snd ?r)). failed out" by code_simp
  have h6: "?s = (fst ?s, fst (snd ?s), snd (snd ?s))" by simp
  have h7: "\<not> failed (snd (snd ?s))" by code_simp
  have w0: "fst (snd ?r) = 0" by code_simp
  have len: "min (1000 * 2 ^ length sevenFailures) (10000::int) = 10000" by code_simp
  note t = backoff_doubles_up_to_cap [OF h1 h2 h3 h4 h5]
  from t have a: "currentBackoffDelay (fst ?r) = min (1000 * 2 ^ length sevenFailures) 10000"
    and b: "currentState (fst ?r) = BACKING_OFF"
    and c: "slept (last (snd (snd ?r))) = Some (currentBackoffDelay (fst ?r))"
    and d: "\<forall>resp now p1 w1 out.
             pollIteration demoRuntime resp now (fst ?r) (fst (snd ?r)) = (p1, w1, out) \<and> \<not> failed out \<longrightarrow>
               currentBackoffDelay p1 = 1000 \<and> currentState p1 = POLLING"
    by blast+
  from d h6 h7 have e: "currentBackoffDelay (fst ?s) = 1000" by blast
  from a b c e len w0 show ?thesis by simp
qed

lemma notifyListeners_calls:
  "notifyListeners ls u d w = (r, w', cs) \<Longrightarrow>
     (\<exists>n \<le> length ls. cs = map (\<lambda>l. (lid l, u, d)) (take n ls))
     \<and> (r = None \<longrightarrow> cs = map (\<lambda>l. (lid l, u, d)) ls)
     \<and> (ls \<noteq> [] \<longrightarrow> cs \<noteq> [])"
proof (induction ls arbitrary: w r w' cs)
  case Nil
  then show ?case by simp
next
  case (Cons l ls)
  obtain e1 w1 where one: "onEndpointChange l u d w = (e1, w1)"
    by (cases "onEndpointChange l u d w") auto
  show ?case
  proof (cases e1)
    case (Some e)
    with Cons.prems one have "cs = [(lid l, u, d)]" "r = Some e" by auto
    then have "cs = map (\<lambda>l. (lid l, u, d)) (take 1 (l # ls))" by simp
    moreover have "1 \<le> length (l # ls)" by simp
    ultimately have "\<exists>n \<le> length (l # ls). cs = map (\<lambda>l. (lid l, u, d)) (take n (l # ls))"
      by blast
    with \<open>r = Some e\<close> \<open>cs = [(lid l, u, d)]\<close> show ?thesis by simp
  next
    case None
    obtain r2 w2 cs2 where rest: "notifyListeners ls u d w1 = (r2, w2, cs2)"
      by (cases "notifyListeners ls u d w1") auto
    with Cons.prems one None have eqs: "r = r2" "w' = w2" "cs = (lid l, u, d) # cs2" by auto
    from Cons.IH [OF rest] obtain n where n: "n \<le> length ls"
      "cs2 = map (\<lambda>l. (lid l, u, d)) (take n ls)"
      and full: "r2 = None \<longrightarrow> cs2 = map (\<lambda>l. (lid l, u, d)) ls" by blast
    from n eqs have "cs = map (\<lambda>l. (lid l, u, d)) (take (Suc n) (l # ls))"
      "Suc n \<le> length (l # ls)" by auto
    then have "\<exists>n \<le> length (l # ls). cs = map (\<lambda>l. (lid l, u, d)) (take n (l # ls))"
      by blast
    with full eqs show ?thesis by simp
  qed
qed

lemma performRequest_same:
  assumes "lastChecksum p = calculateChecksum rt data"
  shows "performRequest rt (Response data) now p w = (None, p\<lparr>lastSuccessfulRequest := now\<rparr>, w, [])"
  using assms by (simp add: performRequest_def)

lemma performRequest_changed:
  assumes "lastChecksum p \<noteq> calculateChecksum rt data"
    "performRequest rt (Response data) now p w = (r, p', w', cs)"
  shows "notifyListeners (changeListeners p) (url p) (decode rt data) w = (r, w', cs)"
  using assms
  by (auto simp: performRequest_def Let_def split: prod.splits option.splits)

lemma performRequest_checksum:
  assumes "performRequest rt (Response data) now p w = (r, p', w', cs)"
  shows "lastChecksum p' = calculateChecksum rt data"
  using assms
  by (auto simp: performRequest_def Let_def split: prod.splits option.splits if_splits)

lemma fresh_poller_checksum:
  "lastChecksum (newEndpointPoller delay u ls) = []"
  "lastChecksum (startPolling (newEndpointPoller delay u ls)) = []"
  by (simp_all add: newEndpointPoller_def startPolling_def)

text \<open>
  The loop over the listeners, call by call: \<open>ws\<close> lists the states of the listening
  components before the first call and after each call that returned; \<open>k\<close> calls returned,
  and the loop ended either after the last listener or at the call that threw.
\<close>

lemma notifyListeners_trace:
  "notifyListeners ls u d w = (r, w', cs) \<Longrightarrow>
     \<exists>k ws. k \<le> length ls \<and> length ws = Suc k \<and> ws ! 0 = w
       \<and> (\<forall>i<k. onEndpointChange (ls ! i) u d (ws ! i) = (None, ws ! Suc i))
       \<and> (r = None \<longrightarrow> k = length ls \<and> w' = ws ! k)
       \<and> (\<forall>e. r = Some e \<longrightarrow>
             k < length ls \<and> onEndpointChange (ls ! k) u d (ws ! k) = (Some e, w')
             \<and> cs = map (\<lambda>l. (lid l, u, d)) (take (Suc k) ls))"
proof (induction ls arbitrary: w r w' cs)
  case Nil
  then have "r = None" "w' = w" by simp_all
  then have "0 \<le> length ([] :: 'a EndpointChangeListener list) \<and> length [w] = Suc 0 \<and> [w] ! 0 = w
       \<and> (\<forall>i<0. onEndpointChange (([] :: 'a EndpointChangeListener list) ! i) u d ([w] ! i) = (None, [w] ! Suc i))
       \<and> (r = None \<longrightarrow> 0 = length ([] :: 'a EndpointChangeListener list) \<and> w' = [w] ! 0)
       \<and> (\<forall>e. r = Some e \<longrightarrow>
             0 < length ([] :: 'a EndpointChangeListener list)
             \<and> onEndpointChange (([] :: 'a EndpointChangeListener list) ! 0) u d ([w] ! 0) = (Some e, w')
             \<and> cs = map (\<lambda>l. (lid l, u, d)) (take (Suc 0) []))"
    by simp
  then show ?case by blast
next
  case (Cons l ls)
  obtain e1 w1 where one: "onEndpointChange l u d w = (e1, w1)"
    by (cases "onEndpointChange l u d w") auto
  show ?case
  proof (cases e1)
    case (Some e)
    with Cons.prems one have f: "cs = [(lid l, u, d)]" "r = Some e" "w' = w1" by auto
    with one Some have "0 \<le> length (l # ls) \<and> length [w] = Suc 0 \<and> [w] ! 0 = w
       \<and> (\<forall>i<0. onEndpointChange ((l # ls) ! i) u d ([w] ! i) = (None, [w] ! Suc i))
       \<and> (r = None \<longrightarrow> 0 = length (l # ls) \<and> w' = [w] ! 0)
       \<and> (\<forall>e. r = Some e \<longrightarrow>
             0 < length (l # ls) \<and> onEndpointChange ((l # ls) ! 0) u d ([w] ! 0) = (Some e, w')
             \<and> cs = map (\<lambda>l. (lid l, u, d)) (take (Suc 0) (l # ls)))"
      by simp
    then show ?thesis by blast
  next
    case None
    obtain r2 w2 cs2 where rest: "notifyListeners ls u d w1 = (r2, w2, cs2)"
      by (cases "notifyListeners ls u d w1") auto
    with Cons.prems one None have eqs: "r = r2" "w' = w2" "cs = (lid l, u, d) # cs2" by auto
    from Cons.IH [OF rest] obtain k ws where k: "k \<le> length ls" "length ws = Suc k" "ws ! 0 = w1"
      "\<forall>i<k. onEndpointChange (ls ! i) u d (ws ! i) = (None, ws ! Suc i)"
      "r2 = None \<longrightarrow> k = length ls \<and> w2 = ws ! k"
      "\<forall>e. r2 = Some e \<longrightarrow>
             k < length ls \<and> onEndpointChange (ls ! k) u d (ws ! k) = (Some e, w2)
             \<and> cs2 = map (\<lambda>l. (lid l, u, d)) (take (Suc k) ls)"
      by blast
    have steps: "\<forall>i<Suc k. onEndpointChange ((l # ls) ! i) u d ((w # ws) ! i) = (None, (w # ws) ! Suc i)"
    proof (intro allI impI)
      fix i assume i: "i < Suc k"
      show "onEndpointChange ((l # ls) ! i) u d ((w # ws) ! i) = (None, (w # ws) ! Suc i)"
      proof (cases i)
        case 0
        with one None k(3) show ?thesis by simp
      next
        case (Suc j)
        with i k(4) show ?thesis by simp
      qed
    qed
    from k eqs have "Suc k \<le> length (l # ls) \<and> length (w # ws) = Suc (Suc k) \<and> (w # ws) ! 0 = w
       \<and> (r = None \<longrightarrow> Suc k = length (l # ls) \<and> w' = (w # ws) ! Suc k)
       \<and> (\<forall>e. r = Some e \<longrightarrow>
             Suc k < length (l # ls)
             \<and> onEndpointChange ((l # ls) ! Suc k) u d ((w # ws) ! Suc k) = (Some e, w')
             \<and> cs = map (\<lambda>l. (lid l, u, d)) (take (Suc (Suc k)) (l # ls)))"
      by simp
    with steps show ?thesis by blast
  qed
qed

text \<open>
  C4, as the code has it. Let a fetch succeed with body \<open>data\<close>. If the digest of
  \<open>data\<close> equals \<open>lastChecksum\<close>, \<open>onEndpointChange\<close> is called on no listener: the
  state of the listening components is untouched and nothing is thrown. If it differs,
  \<open>onEndpointChange\<close> is called on the listeners in registration order, each with the
  poller's url and the decoded body and on the state that the preceding listener left,
  up to and including the first listener that throws: on all of them when none throws; on
  none of those registered after a listener that threw, whose error is the result. A
  poller that has not yet seen a response has the empty string for \<open>lastChecksum\<close>
  (\<open>fresh_poller_checksum\<close>), which no digest equals, so the first response calls the first
  listener. After any response \<open>lastChecksum\<close> is the digest of its body, so the same
  bytes again, fetched in any state with that \<open>lastChecksum\<close>, call no listener.
\<close>

theorem notifies_iff_checksum_differs:
  assumes "performRequest rt (Response data) now p w = (r, p', w', cs)"
  shows "(lastChecksum p = calculateChecksum rt data \<longrightarrow> cs = [] \<and> w' = w \<and> r = None)
       \<and> (lastChecksum p \<noteq> calculateChecksum rt data \<longrightarrow>
            (\<exists>k ws. k \<le> length (changeListeners p) \<and> length ws = Suc k \<and> ws ! 0 = w
               \<and> (\<forall>i<k. onEndpointChange (changeListeners p ! i) (url p) (decode rt data) (ws ! i)
                            = (None, ws ! Suc i))
               \<and> (r = None \<longrightarrow> k = length (changeListeners p) \<and> w' = ws ! k)
               \<and> (\<forall>e. r = Some e \<longrightarrow>
                     k < length (changeListeners p)
                     \<and> onEndpointChange (changeListeners p ! k) (url p) (decode rt data) (ws ! k)
                         = (Some e, w')
                     \<and> cs = map (\<lambda>l. (lid l, url p, decode rt data))
                               (take (Suc k) (changeListeners p))))
            \<and> (r = None \<longrightarrow> cs = map (\<lambda>l. (lid l, url p, decode rt data)) (changeListeners p))
            \<and> (changeListeners p \<noteq> [] \<longrightarrow> cs \<noteq> []))
       \<and> (lastChecksum p = [] \<and> calculateChecksum rt data \<noteq> [] \<and> changeListeners p \<noteq> []
            \<longrightarrow> cs \<noteq> []
                \<and> (\<exists>r1 w1. onEndpointChange (changeListeners p ! 0) (url p) (decode rt data) w
                              = (r1, w1)
                      \<and> (\<forall>e. r1 = Some e \<longrightarrow> r = r1 \<and> w' = w1)))
       \<and> lastChecksum p' = calculateChecksum rt data
       \<and> (\<forall>q now2 v. lastChecksum q = lastChecksum p' \<longrightarrow>
            performRequest rt (Response data) now2 q v
              = (None, q\<lparr>lastSuccessfulRequest := now2\<rparr>, v, []))"
proof -
  let ?ls = "changeListeners p"
  let ?u = "url p"
  let ?d = "decode rt data"
  have a: "lastChecksum p = calculateChecksum rt data \<longrightarrow> cs = [] \<and> w' = w \<and> r = None"
    using assms performRequest_same [of p rt data now w] by auto
  have b: "lastChecksum p \<noteq> calculateChecksum rt data \<longrightarrow>
            (\<exists>k ws. k \<le> length ?ls \<and> length ws = Suc k \<and> ws ! 0 = w
               \<and> (\<forall>i<k. onEndpointChange (?ls ! i) ?u ?d (ws ! i) = (None, ws ! Suc i))
               \<and> (r = None \<longrightarrow> k = length ?ls \<and> w' = ws ! k)
               \<and> (\<forall>e. r = Some e \<longrightarrow>
                     k < length ?ls
                     \<and> onEndpointChange (?ls ! k) ?u ?d (ws ! k) = (Some e, w')
                     \<and> cs = map (\<lambda>l. (lid l, ?u, ?d)) (take (Suc k) ?ls)))
            \<and> (r = None \<longrightarrow> cs = map (\<lambda>l. (lid l, ?u, ?d)) ?ls)
            \<and> (?ls \<noteq> [] \<longrightarrow> cs \<noteq> [])"
  proof
    assume d: "lastChecksum p \<noteq> calculateChecksum rt data"
    note n = performRequest_changed [OF d assms]
    from notifyListeners_trace [OF n] notifyListeners_calls [OF n] show
      "(\<exists>k ws. k \<le> length ?ls \<and> length ws = Suc k \<and> ws ! 0 = w
               \<and> (\<forall>i<k. onEndpointChange (?ls ! i) ?u ?d (ws ! i) = (None, ws ! Suc i))
               \<and> (r = None \<longrightarrow> k = length ?ls \<and> w' = ws ! k)
               \<and> (\<forall>e. r = Some e \<longrightarrow>
                     k < length ?ls
                     \<and> onEndpointChange (?ls ! k) ?u ?d (ws ! k) = (Some e, w')
                     \<and> cs = map (\<lambda>l. (lid l, ?u, ?d)) (take (Suc k) ?ls)))
            \<and> (r = None \<longrightarrow> cs = map (\<lambda>l. (lid l, ?u, ?d)) ?ls)
            \<and> (?ls \<noteq> [] \<longrightarrow> cs \<noteq> [])"
      by simp
  qed
  have c: "lastChecksum p' = calculateChecksum rt data"
    by (rule performRequest_checksum [OF assms])
  have d: "\<forall>q now2 v. lastChecksum q = lastChecksum p' \<longrightarrow>
            performRequest rt (Response data) now2 q v
              = (None, q\<lparr>lastSuccessfulRequest := now2\<rparr>, v, [])"
    using c performRequest_same by metis
  have e: "lastChecksum p = [] \<and> calculateChecksum rt data \<noteq> [] \<and> ?ls \<noteq> []
            \<longrightarrow> cs \<noteq> []
                \<and> (\<exists>r1 w1. onEndpointChange (?ls ! 0) ?u ?d w = (r1, w1)
                      \<and> (\<forall>e. r1 = Some e \<longrightarrow> r = r1 \<and> w' = w1))"
  proof
    assume h: "lastChecksum p = [] \<and> calculateChecksum rt data \<noteq> [] \<and> ?ls \<noteq> []"
    then have df: "lastChecksum p \<noteq> calculateChecksum rt data" by auto
    note n = performRequest_changed [OF df assms]
    from h obtain l ls' where ls: "?ls = l # ls'" by (cases ?ls) auto
    obtain r1 w1 where one: "onEndpointChange l ?u ?d w = (r1, w1)"
      by (cases "onEndpointChange l ?u ?d w") auto
    have "\<forall>e. r1 = Some e \<longrightarrow> r = r1 \<and> w' = w1"
      using n one ls by auto
    with one ls b df h show "cs \<noteq> []
                \<and> (\<exists>r1 w1. onEndpointChange (?ls ! 0) ?u ?d w = (r1, w1)
                      \<and> (\<forall>e. r1 = Some e \<longrightarrow> r = r1 \<and> w' = w1))"
      by simp
  qed
  from a b c d e show ?thesis by blast
qed

text \<open>
  Two listeners that log their calls: the first response reaches both, in order, and the
  same response again reaches neither.
\<close>

theorem notifies_iff_checksum_differs_witness:
  "(case pollIteration demoRuntime (Response demoBody) 5
           (logPoller [loggingListener 0, loggingListener 1]) [] of
      (p1, w1, out1) \<Rightarrow>
        w1 = [(0, ''ok''), (1, ''ok'')]
        \<and> calls out1 = [(0, ''http://feed'', ''ok''), (1, ''http://feed'', ''ok'')]
        \<and> (case pollIteration demoRuntime (Response demoBody) 6 p1 w1 of
             (p2, w2, out2) \<Rightarrow> w2 = w1 \<and> calls out2 = []))"
proof -
  let ?p = "logPoller [loggingListener 0, loggingListener 1]"
  let ?u = "''http://feed''"
  obtain r p' w' cs where h: "performRequest demoRuntime (Response demoBody) 5 ?p [] = (r, p', w', cs)"
    by (cases "performRequest demoRuntime (Response demoBody) 5 ?p []") auto
  note t = notifies_iff_checksum_differs [OF h]
  have d: "lastChecksum ?p \<noteq> calculateChecksum demoRuntime demoBody" by code_simp
  have ok: "fst (performRequest demoRuntime (Response demoBody) 5 ?p []) = None" by code_simp
  with h have r: "r = None" by simp
  have dec: "decode demoRuntime demoBody = ''ok''" by code_simp
  have ls: "changeListeners ?p = [loggingListener 0, loggingListener 1]" "url ?p = ?u"
    by (simp_all add: logPoller_def startPolling_def newEndpointPoller_def)
  note b = t [THEN conjunct2, THEN conjunct1, rule_format, OF d]
  from b obtain k ws where kw: "ws ! 0 = []"
    "\<forall>i<k. onEndpointChange (changeListeners ?p ! i) (url ?p) (decode demoRuntime demoBody) (ws ! i)
             = (None, ws ! Suc i)"
    "r = None \<longrightarrow> k = length (changeListeners ?p) \<and> w' = ws ! k"
    by blast
  from b r have "cs = map (\<lambda>l. (lid l, url ?p, decode demoRuntime demoBody)) (changeListeners ?p)"
    by blast
  with ls dec have cs: "cs = [(0, ?u, ''ok''), (1, ?u, ''ok'')]"
    by (simp add: loggingListener_def)
  from kw(3) r ls have k: "k = 2" "w' = ws ! 2" by (auto simp: numeral_2_eq_2)
  from kw(2) k(1) ls dec have steps:
    "\<forall>i<2. onEndpointChange ([loggingListener 0, loggingListener 1] ! i) ?u ''ok'' (ws ! i)
              = (None, ws ! Suc i)"
    by simp
  from steps [rule_format, of 0] kw(1) have w1: "ws ! 1 = [(0, ''ok'')]"
    by (simp add: loggingListener_def)
  from steps [rule_format, of 1] w1 have w2: "ws ! 2 = [(0, ''ok''), (1, ''ok'')]"
    by (simp add: loggingListener_def numeral_2_eq_2)
  from h r have it: "pollIteration demoRuntime (Response demoBody) 5 ?p []
      = (p'\<lparr>currentBackoffDelay := 1000, currentState := POLLING\<rparr>, w',
         \<lparr> failed = False, calls = cs, visited = [POLLING],
           slept = (if requestDelayMs p' > 0 \<and> isPolling p' then Some (requestDelayMs p') else None) \<rparr>)"
    by (simp add: pollIteration_def Let_def)
  let ?q = "p'\<lparr>currentBackoffDelay := 1000, currentState := POLLING\<rparr>"
  have same: "lastChecksum ?q = lastChecksum p'" by simp
  from t [THEN conjunct2, THEN conjunct2, THEN conjunct2, THEN conjunct2, rule_format, OF same]
  have "performRequest demoRuntime (Response demoBody) 6 ?q w'
              = (None, ?q\<lparr>lastSuccessfulRequest := 6\<rparr>, w', [])" .
  then have again: "fst (snd (pollIteration demoRuntime (Response demoBody) 6 ?q w')) = w'"
    "calls (snd (snd (pollIteration demoRuntime (Response demoBody) 6 ?q w'))) = []"
    by (simp_all add: pollIteration_def Let_def)
  from it again k(2) cs w2 show ?thesis
    by (simp add: split_beta)
qed

text \<open>
  C4, as stated, fails. With three listeners of which the second throws, the first
  response has a digest that differs from \<open>lastChecksum\<close>, and the third listener, which
  is registered, is not called; the same bytes fetched again call nobody, so the third
  listener is never called with this body.
\<close>

theorem throwing_listener_cuts_notification_counterexample:
  "(case pollIteration demoRuntime (Response demoBody) 5
           (logPoller [loggingListener 0, failingListener 1, loggingListener 2]) [] of
      (p1, w1, out1) \<Rightarrow>
        lastChecksum (logPoller [loggingListener 0, failingListener 1, loggingListener 2])
          \<noteq> calculateChecksum demoRuntime demoBody
        \<and> w1 = [(0, ''ok''), (1, ''ok'')]
        \<and> calls out1 = [(0, ''http://feed'', ''ok''), (1, ''http://feed'', ''ok'')]
        \<and> map lid (changeListeners p1) = [0, 1, 2]
        \<and> (case pollIteration demoRuntime (Response demoBody) 6 p1 w1 of
             (p2, w2, out2) \<Rightarrow> w2 = [(0, ''ok''), (1, ''ok'')] \<and> calls out2 = []))"
  by code_simp

lemma startPolling_fields:
  "lastChecksum (startPolling p) = lastChecksum p"
  "currentBackoffDelay (startPolling p) = currentBackoffDelay p"
  "changeListeners (startPolling p) = changeListeners p"
  "url (startPolling p) = url p"
  "isPolling (startPolling p)"
  by (simp_all add: startPolling_def)

lemma stopPolling_fields:
  "lastChecksum (stopPolling p) = lastChecksum p"
  "currentBackoffDelay (stopPolling p) = currentBackoffDelay p"
  "changeListeners (stopPolling p) = changeListeners p"
  "url (stopPolling p) = url p"
  "\<not> isPolling (stopPolling p)"
  "currentState (stopPolling p) = INITIALIZING"
  by (simp_all add: stopPolling_def)

text \<open>
  C6, as the code has it. After a response with body \<open>data\<close> has been fetched,
  \<open>stopPolling\<close> leaves the poller in \<open>INITIALIZING\<close> and \<open>startPolling\<close> moves it to
  \<open>POLLING\<close>; neither assigns \<open>lastChecksum\<close> or \<open>currentBackoffDelay\<close>, which keep
  their values. So the next pass that fetches the same bytes calls no listener (and does
  not fail).
\<close>

theorem restart_keeps_checksum_and_backoff:
  assumes "performRequest rt (Response data) now0 p0 w0 = (r0, p1, w1, cs0)"
  shows "currentState (stopPolling p1) = INITIALIZING
       \<and> currentState (startPolling (stopPolling p1)) = POLLING
       \<and> isPolling (startPolling (stopPolling p1))
       \<and> lastChecksum (startPolling (stopPolling p1)) = lastChecksum p1
       \<and> currentBackoffDelay (startPolling (stopPolling p1)) = currentBackoffDelay p1
       \<and> (\<forall>now w. \<exists>p2 out.
             pollIteration rt (Response data) now (startPolling (stopPolling p1)) w = (p2, w, out)
             \<and> calls out = [] \<and> \<not> failed out)"
proof -
  let ?q = "startPolling (stopPolling p1)"
  have c: "lastChecksum ?q = calculateChecksum rt data"
    using performRequest_checksum [OF assms]
    by (simp add: startPolling_fields stopPolling_fields)
  have "\<forall>now w. \<exists>p2 out.
          pollIteration rt (Response data) now ?q w = (p2, w, out) \<and> calls out = [] \<and> \<not> failed out"
    using performRequest_same [OF c] by (simp add: pollIteration_def Let_def)
  moreover have "currentState ?q = POLLING"
    by (simp add: startPolling_def stopPolling_def)
  ultimately show ?thesis
    by (simp add: startPolling_fields stopPolling_fields)
qed

text \<open>
  C6, as stated, fails. A poller with one listener fetches the body \<open>ok\<close> and notifies;
  it is stopped and started; it fetches \<open>ok\<close> again and calls nobody, its checksum still
  being that of \<open>ok\<close>. And a poller stopped and started after seven failed passes still has
  the capped delay 10000, not 1000.
\<close>

theorem restart_renotifies_counterexample:
  "calls (snd (snd (pollIteration demoRuntime (Response demoBody) 5
             (demoPoller [countingListener 0]) 0))) = [(0, ''http://feed'', ''ok'')]
   \<and> calls (snd (snd (pollIteration demoRuntime (Response demoBody) 9
             (startPolling (stopPolling
                (fst (pollIteration demoRuntime (Response demoBody) 5
                        (demoPoller [countingListener 0]) 0)))) 1))) = []
   \<and> lastChecksum (startPolling (stopPolling
                (fst (pollIteration demoRuntime (Response demoBody) 5
                        (demoPoller [countingListener 0]) 0)))) \<noteq> []
   \<and> currentBackoffDelay (startPolling (stopPolling
         (fst (poll demoRuntime sevenFailures (demoPoller [countingListener 0]) 0)))) = 10000"
  by code_simp

theorem restart_keeps_checksum_and_backoff_witness:
  "lastChecksum (startPolling (stopPolling
      (fst (snd (performRequest demoRuntime (Response demoBody) 5 (demoPoller [countingListener 0]) 0)))))
     = ''#ok''
   \<and> (\<exists>p2 out. pollIteration demoRuntime (Response demoBody) 9 (startPolling (stopPolling
      (fst (snd (performRequest demoRuntime (Response demoBody) 5 (demoPoller [countingListener 0]) 0))))) (1::nat)
        = (p2, 1, out) \<and> calls out = [] \<and> \<not> failed out)"
proof -
  let ?r = "performRequest demoRuntime (Response demoBody) 5 (demoPoller [countingListener 0]) 0"
  have h: "?r = (fst ?r, fst (snd ?r), fst (snd (snd ?r)), snd (snd (snd ?r)))" by simp
  note t = restart_keeps_checksum_and_backoff [OF h]
  have "lastChecksum (fst (snd ?r)) = ''#ok''" by code_simp
  with t show ?thesis by simp
qed

text \<open>
  C7. Let the body be new (its digest differs from \<open>lastChecksum\<close>) and let some listener
  throw in the notification round. Then the pass takes the \<open>catch\<close> branch: the state is
  set to \<open>ERROR\<close> and then, by \<open>handleError\<close>, to \<open>BACKING_OFF\<close>, the delay doubles up to
  the cap and is slept. \<open>lastChecksum\<close> is nevertheless the digest of the new body, so a
  following pass that fetches the same body calls no listener and succeeds.
\<close>

theorem listener_failure_fails_cycle_but_keeps_checksum:
  assumes "lastChecksum p \<noteq> calculateChecksum rt data"
    "notifyListeners (changeListeners p) (url p) (decode rt data) w = (Some e, w1, cs)"
    "pollIteration rt (Response data) now p w = (p', w', out)"
  shows "failed out \<and> calls out = cs \<and> w' = w1
       \<and> visited out = [ERROR, BACKING_OFF]
       \<and> currentState p' = BACKING_OFF
       \<and> currentBackoffDelay p' = min (currentBackoffDelay p * 2) 10000
       \<and> slept out = (if isPolling p then Some (currentBackoffDelay p') else None)
       \<and> lastChecksum p' = calculateChecksum rt data
       \<and> (\<forall>now2 v. \<exists>p2 out2.
             pollIteration rt (Response data) now2 p' v = (p2, v, out2)
             \<and> calls out2 = [] \<and> \<not> failed out2)"
proof -
  have pr: "performRequest rt (Response data) now p w = (Some e, p\<lparr>lastChecksum := calculateChecksum rt data\<rparr>, w1, cs)"
    using assms(1,2) by (simp add: performRequest_def Let_def)
  with assms(3) have f: "failed out" "calls out = cs" "w' = w1"
    "lastChecksum p' = calculateChecksum rt data"
    by (auto simp: pollIteration_def Let_def handleError_def)
  note one = pollIteration_failed [OF assms(3) f(1)]
  have "\<forall>now2 v. \<exists>p2 out2.
          pollIteration rt (Response data) now2 p' v = (p2, v, out2) \<and> calls out2 = [] \<and> \<not> failed out2"
    using performRequest_same [OF f(4)] by (simp add: pollIteration_def Let_def)
  with f one show ?thesis by simp
qed

theorem listener_failure_fails_cycle_but_keeps_checksum_witness:
  "visited (snd (snd (pollIteration demoRuntime (Response demoBody) 5
        (demoPoller [countingListener 0, throwingListener 1, countingListener 2]) 0)))
     = [ERROR, BACKING_OFF]
   \<and> calls (snd (snd (pollIteration demoRuntime (Response demoBody) 5
        (demoPoller [countingListener 0, throwingListener 1, countingListener 2]) 0)))
     = [(0, ''http://feed'', ''ok''), (1, ''http://feed'', ''ok'')]
   \<and> lastChecksum (fst (pollIteration demoRuntime (Response demoBody) 5
        (demoPoller [countingListener 0, throwingListener 1, countingListener 2]) 0)) = ''#ok''
   \<and> currentBackoffDelay (fst (pollIteration demoRuntime (Response demoBody) 5
        (demoPoller [countingListener 0, throwingListener 1, countingListener 2]) 0)) = 2000"
proof -
  let ?p = "demoPoller [countingListener 0, throwingListener 1, countingListener 2]"
  let ?s = "pollIteration demoRuntime (Response demoBody) 5 ?p 0"
  have h1: "lastChecksum ?p \<noteq> calculateChecksum demoRuntime demoBody" by code_simp
  have h2: "notifyListeners (changeListeners ?p) (url ?p) (decode demoRuntime demoBody) 0
              = (Some TypeError, 1, [(0, ''http://feed'', ''ok''), (1, ''http://feed'', ''ok'')])"
    by code_simp
  have h3: "?s = (fst ?s, fst (snd ?s), snd (snd ?s))" by simp
  note t = listener_failure_fails_cycle_but_keeps_checksum [OF h1 h2 h3]
  have a: "calculateChecksum demoRuntime demoBody = ''#ok''" by code_simp
  have b: "min (currentBackoffDelay ?p * 2) 10000 = 2000" by code_simp
  from t a b show ?thesis by simp
qed

section \<open>Properties: identifier resolver\<close>

lemma getProp_setProp:
  "getProp (setProp k v m) k' = (if k' = k then Some v else getProp m k')"
  by (induction m) (auto simp: getProp_def)

lemma getProp_setAll_other:
  "k \<notin> set (map fst es) \<Longrightarrow> getProp (setAll es m) k = getProp m k"
  by (induction es arbitrary: m) (auto simp: getProp_setProp)

lemma firstKnown_None:
  "firstKnown m gs = None \<longleftrightarrow> (\<forall>g \<in> set gs. getProp m g = None)"
  by (auto simp: firstKnown_def find_None_iff)

lemma firstKnown_Some:
  "firstKnown m gs = Some g \<Longrightarrow> g \<in> set gs \<and> getProp m g \<noteq> None"
  by (auto simp: firstKnown_def find_Some_iff)

lemma firstRepeated_None:
  "firstRepeated seen gs = None \<longleftrightarrow> distinct gs \<and> set gs \<inter> set seen = {}"
  by (induction gs arbitrary: seen) auto

lemma firstRepeated_Some:
  "firstRepeated seen gs = Some g \<Longrightarrow> g \<in> set gs"
  by (induction gs arbitrary: seen) (auto split: if_splits)

lemma fetch_keeps_bindings:
  assumes "fetchAndUpdateMappings rt gm = (r, gm')" "getProp (mappings gm) k = Some v"
  shows "getProp (mappings gm') k = Some v"
proof (cases "\<exists>es. r = None \<and> mappings gm' = setAll es (mappings gm)
                \<and> firstKnown (mappings gm) (map fst es) = None")
  case True
  then obtain es where es: "mappings gm' = setAll es (mappings gm)"
    "firstKnown (mappings gm) (map fst es) = None" by blast
  from es(2) assms(2) have "k \<notin> set (map fst es)"
    by (auto simp: firstKnown_None)
  with es(1) assms(2) show ?thesis by (simp add: getProp_setAll_other)
next
  case False
  with assms(1) have "mappings gm' = mappings gm"
    by (auto simp: fetchAndUpdateMappings_def Let_def
        split: mappings_response.splits if_splits sum.splits option.splits)
  with assms(2) show ?thesis by simp
qed

lemma get_keeps_bindings:
  assumes "getProp (mappings gm) k = Some v"
  shows "getProp (mappings (snd (get rt guid gm))) k = Some v"
proof -
  obtain r gm' where f: "fetchAndUpdateMappings rt gm = (r, gm')"
    by (cases "fetchAndUpdateMappings rt gm") auto
  note fetch_keeps_bindings [OF f assms]
  with assms f show ?thesis
    by (auto simp: get_def split: option.splits)
qed

lemma fetch_duplicate:
  assumes "mappingsEndpoint rt (requests gm) = Payload (Some payload)"
    "parseEntries rt payload = Inr entries"
    "\<not> distinct (map fst entries) \<or> (\<exists>g \<in> set (map fst entries). getProp (mappings gm) g \<noteq> None)"
  shows "\<exists>g \<in> set (map fst entries).
           fetchAndUpdateMappings rt gm
             = (Some (ValidationError (''Duplicate GUID found in new entries: '' @ g)),
                gm\<lparr>requests := Suc (requests gm)\<rparr>)
         \<or> fetchAndUpdateMappings rt gm
             = (Some (ValidationError (''Duplicate GUID found: '' @ g)),
                gm\<lparr>requests := Suc (requests gm)\<rparr>)"
proof -
  from assms(2) have ne: "payload \<noteq> []"
    by (auto simp: parseEntries_def)
  show ?thesis
  proof (cases "firstRepeated [] (map fst entries)")
    case (Some g)
    with assms ne firstRepeated_Some [OF Some] show ?thesis
      by (auto simp: fetchAndUpdateMappings_def Let_def falsyString_def)
  next
    case None
    then have "distinct (map fst entries)" by (simp add: firstRepeated_None)
    with assms(3) have "firstKnown (mappings gm) (map fst entries) \<noteq> None"
      by (simp add: firstKnown_None)
    then obtain g where g: "firstKnown (mappings gm) (map fst entries) = Some g" by auto
    with assms ne None firstKnown_Some [OF g] show ?thesis
      by (auto simp: fetchAndUpdateMappings_def Let_def falsyString_def)
  qed
qed

lemma fetch_parse_error:
  assumes "mappingsEndpoint rt (requests gm) = Payload (Some payload)" "payload \<noteq> []"
    "parseEntries rt payload = Inl err"
  shows "fetchAndUpdateMappings rt gm = (Some err, gm\<lparr>requests := Suc (requests gm)\<rparr>)"
  using assms by (simp add: fetchAndUpdateMappings_def Let_def falsyString_def)


text \<open>
  C8, as the code has it. No call of \<open>get\<close> removes or changes a binding: whatever the
  cache maps an identifier to before the call, it maps it to afterwards, whether the call
  succeeds or fails. When \<open>get\<close> misses and fetches a payload all of whose segments parse
  into pairs, and some pair's identifier repeats within the payload or is already in the
  cache, \<open>get\<close> fails with one of the two \<open>Duplicate GUID found\<close> validation errors and
  the cache is as before; the names play no part, so an identical name fails as well. When
  a segment of the payload does not parse, \<open>get\<close> fails with that segment's validation
  error, whatever duplicates the payload holds, and the cache is as before.
\<close>

theorem bindings_only_grow:
  "(\<forall>k v. getProp (mappings gm) k = Some v \<longrightarrow>
            getProp (mappings (snd (get rt guid gm))) k = Some v)
   \<and> (isUuid rt guid \<and> falsyString (getProp (mappings gm) guid)
        \<and> mappingsEndpoint rt (requests gm) = Payload (Some payload) \<and> payload \<noteq> [] \<longrightarrow>
        (\<forall>entries.
            parseEntries rt payload = Inr entries
            \<and> (\<not> distinct (map fst entries)
                 \<or> (\<exists>g \<in> set (map fst entries). getProp (mappings gm) g \<noteq> None)) \<longrightarrow>
            (\<exists>g \<in> set (map fst entries).
                fst (get rt guid gm)
                  = Inl (ValidationError (''Duplicate GUID found in new entries: '' @ g))
              \<or> fst (get rt guid gm) = Inl (ValidationError (''Duplicate GUID found: '' @ g)))
            \<and> mappings (snd (get rt guid gm)) = mappings gm)
        \<and> (\<forall>err. parseEntries rt payload = Inl err \<longrightarrow>
              fst (get rt guid gm) = Inl err \<and> mappings (snd (get rt guid gm)) = mappings gm))"
proof (intro conjI allI impI)
  fix k v
  assume "getProp (mappings gm) k = Some v"
  then show "getProp (mappings (snd (get rt guid gm))) k = Some v"
    by (rule get_keeps_bindings)
next
  fix entries
  assume h: "isUuid rt guid \<and> falsyString (getProp (mappings gm) guid)
        \<and> mappingsEndpoint rt (requests gm) = Payload (Some payload) \<and> payload \<noteq> []"
    and e: "parseEntries rt payload = Inr entries
            \<and> (\<not> distinct (map fst entries)
                 \<or> (\<exists>g \<in> set (map fst entries). getProp (mappings gm) g \<noteq> None))"
  from h e fetch_duplicate [of rt gm payload entries]
  obtain g where g: "g \<in> set (map fst entries)"
    "fetchAndUpdateMappings rt gm
       = (Some (ValidationError (''Duplicate GUID found in new entries: '' @ g)),
          gm\<lparr>requests := Suc (requests gm)\<rparr>)
     \<or> fetchAndUpdateMappings rt gm
       = (Some (ValidationError (''Duplicate GUID found: '' @ g)),
          gm\<lparr>requests := Suc (requests gm)\<rparr>)"
    by blast
  from g(2) h have r: "fst (get rt guid gm)
                  = Inl (ValidationError (''Duplicate GUID found in new entries: '' @ g))
              \<or> fst (get rt guid gm) = Inl (ValidationError (''Duplicate GUID found: '' @ g))"
    by (auto simp: get_def validateGuid_def)
  from g(2) h have m: "mappings (snd (get rt guid gm)) = mappings gm"
    by (auto simp: get_def validateGuid_def)
  from g(1) r show "\<exists>g \<in> set (map fst entries).
                fst (get rt guid gm)
                  = Inl (ValidationError (''Duplicate GUID found in new entries: '' @ g))
              \<or> fst (get rt guid gm) = Inl (ValidationError (''Duplicate GUID found: '' @ g))"
    by blast
  from m show "mappings (snd (get rt guid gm)) = mappings gm" .
next
  fix err
  assume h: "isUuid rt guid \<and> falsyString (getProp (mappings gm) guid)
        \<and> mappingsEndpoint rt (requests gm) = Payload (Some payload) \<and> payload \<noteq> []"
    and e: "parseEntries rt payload = Inl err"
  from h e have f: "fetchAndUpdateMappings rt gm = (Some err, gm\<lparr>requests := Suc (requests gm)\<rparr>)"
    by (simp add: fetch_parse_error)
  from f h show "fst (get rt guid gm) = Inl err"
    by (auto simp: get_def validateGuid_def)
  from f h show "mappings (snd (get rt guid gm)) = mappings gm"
    by (auto simp: get_def validateGuid_def)
qed

theorem bindings_only_grow_witness:
  "fst (get (jsRuntime rebindEndpoint) madrid newGuidMapper) = Inr ''Real Madrid''
   \<and> fst (get (jsRuntime rebindEndpoint) barcelona
         (snd (get (jsRuntime rebindEndpoint) madrid newGuidMapper)))
       = Inl (ValidationError (''Duplicate GUID found: '' @ madrid))
   \<and> getProp (mappings (snd (get (jsRuntime rebindEndpoint) barcelona
         (snd (get (jsRuntime rebindEndpoint) madrid newGuidMapper))))) madrid
       = Some ''Real Madrid''"
proof -
  let ?rt = "jsRuntime rebindEndpoint"
  let ?gm = "snd (get ?rt madrid newGuidMapper)"
  let ?payload = "madrid @ '':Real Madrid''"
  have first: "fst (get ?rt madrid newGuidMapper) = Inr ''Real Madrid''" by code_simp
  have bound: "getProp (mappings ?gm) madrid = Some ''Real Madrid''" by code_simp
  have h: "isUuid ?rt barcelona \<and> falsyString (getProp (mappings ?gm) barcelona)
        \<and> mappingsEndpoint ?rt (requests ?gm) = Payload (Some ?payload) \<and> ?payload \<noteq> []"
    by code_simp
  have pe: "parseEntries ?rt ?payload = Inr [(madrid, ''Real Madrid'')]" by code_simp
  have known: "\<exists>g \<in> set (map fst [(madrid, ''Real Madrid'')]). getProp (mappings ?gm) g \<noteq> None"
    using bound by simp
  note t = bindings_only_grow [of ?gm ?rt barcelona ?payload]
  from t bound have keep: "getProp (mappings (snd (get ?rt barcelona ?gm))) madrid = Some ''Real Madrid''"
    by blast
  from t h pe known
  have "\<exists>g \<in> set (map fst [(madrid, ''Real Madrid'')]).
          fst (get ?rt barcelona ?gm)
            = Inl (ValidationError (''Duplicate GUID found in new entries: '' @ g))
        \<or> fst (get ?rt barcelona ?gm) = Inl (ValidationError (''Duplicate GUID found: '' @ g))"
    by blast
  then have alt: "fst (get ?rt barcelona ?gm)
            = Inl (ValidationError (''Duplicate GUID found in new entries: '' @ madrid))
        \<or> fst (get ?rt barcelona ?gm) = Inl (ValidationError (''Duplicate GUID found: '' @ madrid))"
    by simp
  have no: "fst (get ?rt barcelona ?gm)
            \<noteq> Inl (ValidationError (''Duplicate GUID found in new entries: '' @ madrid))"
    by code_simp
  from alt no first keep show ?thesis by blast
qed

text \<open>
  C8, as stated, fails on a payload that holds both a pair whose identifier is already bound
  and a malformed segment: the entries are parsed before duplicates are looked for, so the
  error is \<open>Invalid Guid\<close>, not a duplicate-binding error.
\<close>

theorem duplicate_in_malformed_payload_counterexample:
  "fst (get (jsRuntime malformedEndpoint) madrid newGuidMapper) = Inr ''Real Madrid''
   \<and> mappingsEndpoint (jsRuntime malformedEndpoint) 1
       = Payload (Some (madrid @ '':Real Madrid;invalid:entry''))
   \<and> fst (get (jsRuntime malformedEndpoint) barcelona
         (snd (get (jsRuntime malformedEndpoint) madrid newGuidMapper)))
       = Inl (ValidationError ''Invalid Guid'')"
  by code_simp

section \<open>Properties: record decoder\<close>

lemma splitOn_nonempty: "splitOn c s \<noteq> []"
  by (induction s) (auto split: list.splits)

lemma splitOn_two: "c \<in> set s \<Longrightarrow> \<exists>a b rest. splitOn c s = a # b # rest"
proof (induction s)
  case Nil
  then show ?case by simp
next
  case (Cons x s)
  show ?case
  proof (cases "x = c")
    case True
    obtain p ps where "splitOn c s = p # ps"
      using splitOn_nonempty [of c s] by (cases "splitOn c s") auto
    with True show ?thesis by simp
  next
    case False
    with Cons.prems have "c \<in> set s" by simp
    from Cons.IH [OF this] obtain a b rest where "splitOn c s = a # b # rest" by blast
    with False show ?thesis by simp
  qed
qed

lemma parseGoal_ok_iff:
  "(\<exists>g. parseGoal rt seg = Inr g) \<longleftrightarrow> segmentAccepted rt seg"
  by (auto simp: parseGoal_def segmentAccepted_def Let_def isNaN_def
      split: list.splits option.splits if_splits)

lemma parseGoal_validation:
  assumes "parseGoal rt seg = Inl e" "CHR ''@'' \<in> set seg"
  shows "\<exists>msg. e = ValidationError msg"
proof -
  from splitOn_two [OF assms(2)] obtain a b rest where
    "splitOn CHR ''@'' seg = a # b # rest" by blast
  with assms(1) show ?thesis
    by (auto simp: parseGoal_def Let_def split: if_splits)
qed

lemma mapGoals_ok_iff:
  "(\<exists>gs. mapGoals rt segs = Inr gs) \<longleftrightarrow> (\<forall>seg \<in> set segs. segmentAccepted rt seg)"
proof (induction segs)
  case Nil
  then show ?case by simp
next
  case (Cons s segs)
  show ?case
  proof (cases "parseGoal rt s")
    case (Inl e)
    then have "\<not> segmentAccepted rt s"
      using parseGoal_ok_iff [of rt s] by auto
    with Inl show ?thesis by simp
  next
    case (Inr g)
    then have "segmentAccepted rt s"
      using parseGoal_ok_iff [of rt s] by auto
    with Inr Cons.IH show ?thesis by (auto split: sum.splits)
  qed
qed

lemma mapGoals_validation:
  assumes "mapGoals rt segs = Inl e" "\<forall>seg \<in> set segs. CHR ''@'' \<in> set seg"
  shows "\<exists>msg. e = ValidationError msg"
  using assms
proof (induction segs)
  case Nil
  then show ?case by simp
next
  case (Cons s segs)
  show ?case
  proof (cases "parseGoal rt s")
    case (Inl e')
    with Cons.prems have "e = e'" by simp
    with Inl Cons.prems parseGoal_validation [of rt s e'] show ?thesis by simp
  next
    case (Inr g)
    with Cons.prems have "mapGoals rt segs = Inl e" by (auto split: sum.splits)
    with Cons show ?thesis by simp
  qed
qed

lemma firstInvalidGuid_None:
  "firstInvalidGuid rt flds = None \<longleftrightarrow> rule2 rt flds"
  by (auto simp: firstInvalidGuid_def rule2_def find_None_iff)

lemma firstInvalidGuid_Some:
  "firstInvalidGuid rt flds = Some i \<Longrightarrow> i \<in> set guidFields \<and> \<not> isUuid rt (flds ! i)"
  by (auto simp: firstInvalidGuid_def find_Some_iff)

lemma parseRecord_rule1:
  assumes "\<not> rule1 (splitOn CHR '','' r)"
  shows "fst (parseRecord rt r mm) = Some (ValidationError
           (''Invalid record format: expected 7 or 8 fields, got ''
              @ showNat (length (splitOn CHR '','' r))))"
proof -
  from assms have "length (splitOn CHR '','' r) < 7 \<or> length (splitOn CHR '','' r) > 8"
    by (auto simp: rule1_def)
  then show ?thesis by (simp add: parseRecord_def Let_def)
qed

lemma rule1_length:
  "rule1 flds \<Longrightarrow> \<not> (length flds < 7 \<or> length flds > 8)"
  by (auto simp: rule1_def)

lemma parseRecord_rule2:
  assumes "rule1 (splitOn CHR '','' r)" "\<not> rule2 rt (splitOn CHR '','' r)"
  shows "\<exists>index \<in> set guidFields. \<not> isUuid rt (splitOn CHR '','' r ! index)
           \<and> fst (parseRecord rt r mm) = Some (ValidationError
               (''Invalid GUID at position '' @ showNat (index + 1) @ '': ''
                  @ splitOn CHR '','' r ! index))"
proof -
  from assms(2) obtain i where i: "firstInvalidGuid rt (splitOn CHR '','' r) = Some i"
    using firstInvalidGuid_None [of rt "splitOn CHR '','' r"] by auto
  note s = firstInvalidGuid_Some [OF i]
  from i rule1_length [OF assms(1)]
  have "fst (parseRecord rt r mm) = Some (ValidationError
               (''Invalid GUID at position '' @ showNat (i + 1) @ '': ''
                  @ splitOn CHR '','' r ! i))"
    by (simp add: parseRecord_def Let_def)
  with s show ?thesis by blast
qed

lemma parseRecord_rule3:
  assumes "rule1 (splitOn CHR '','' r)" "rule2 rt (splitOn CHR '','' r)"
    "\<not> rule3 rt (splitOn CHR '','' r)"
  shows "fst (parseRecord rt r mm)
           = Some (ValidationError (''Invalid timestamp: '' @ splitOn CHR '','' r ! 3))"
proof -
  from assms(2) have "firstInvalidGuid rt (splitOn CHR '','' r) = None"
    by (simp add: firstInvalidGuid_None)
  with assms(3) rule1_length [OF assms(1)] show ?thesis
    by (simp add: parseRecord_def Let_def rule3_def)
qed

lemma parseRecord_past_rule3:
  assumes "rule1 (splitOn CHR '','' r)" "rule2 rt (splitOn CHR '','' r)"
    "rule3 rt (splitOn CHR '','' r)"
  shows "parseRecord rt r mm =
     (let flds = splitOn CHR '','' r in
      if length flds = 8 \<and> flds ! 7 \<noteq> []
      then (case parseGoals rt (flds ! 7) of
              Inl err \<Rightarrow> (Some err, assigned rt r)
            | Inr gs \<Rightarrow> (None, (assigned rt r)\<lparr>goals := gs\<rparr>))
      else (None, assigned rt r))"
proof -
  from assms(2) have "firstInvalidGuid rt (splitOn CHR '','' r) = None"
    by (simp add: firstInvalidGuid_None)
  with assms(3) rule1_length [OF assms(1)] show ?thesis
    by (simp add: parseRecord_def Let_def rule3_def assigned_def clearState_def
        split: sum.splits)
qed

lemma parseRecord_None_iff:
  "fst (parseRecord rt r mm) = None \<longleftrightarrow>
     rule1 (splitOn CHR '','' r) \<and> rule2 rt (splitOn CHR '','' r)
     \<and> rule3 rt (splitOn CHR '','' r) \<and> rule4 rt (splitOn CHR '','' r)"
proof (cases "rule1 (splitOn CHR '','' r) \<and> rule2 rt (splitOn CHR '','' r)
     \<and> rule3 rt (splitOn CHR '','' r)")
  case True
  then have p: "rule1 (splitOn CHR '','' r)" "rule2 rt (splitOn CHR '','' r)"
    "rule3 rt (splitOn CHR '','' r)" by simp_all
  show ?thesis
  proof (cases "length (splitOn CHR '','' r) = 8 \<and> splitOn CHR '','' r ! 7 \<noteq> []")
    case False
    with p show ?thesis
      by (auto simp: parseRecord_past_rule3 [OF p] Let_def rule4_def)
  next
    case g: True
    have "(\<exists>gs. parseGoals rt (splitOn CHR '','' r ! 7) = Inr gs)
            \<longleftrightarrow> rule4 rt (splitOn CHR '','' r)"
      using g by (simp add: parseGoals_def mapGoals_ok_iff rule4_def)
    with p g show ?thesis
      by (auto simp: parseRecord_past_rule3 [OF p] Let_def split: sum.splits)
  qed
next
  case False
  then consider "\<not> rule1 (splitOn CHR '','' r)"
    | "rule1 (splitOn CHR '','' r)" "\<not> rule2 rt (splitOn CHR '','' r)"
    | "rule1 (splitOn CHR '','' r)" "rule2 rt (splitOn CHR '','' r)" "\<not> rule3 rt (splitOn CHR '','' r)"
    by blast
  then show ?thesis
  proof cases
    case 1
    with parseRecord_rule1 [OF 1, of rt mm] show ?thesis by simp
  next
    case 2
    with parseRecord_rule2 [OF 2, of mm] show ?thesis by auto
  next
    case 3
    with parseRecord_rule3 [OF 3, of mm] show ?thesis by simp
  qed
qed

lemma parseRecord_validation:
  assumes "fst (parseRecord rt r mm) = Some e"
    "length (splitOn CHR '','' r) = 8 \<longrightarrow>
       (\<forall>seg \<in> set (splitOn CHR ''|'' (splitOn CHR '','' r ! 7)). CHR ''@'' \<in> set seg)"
  shows "\<exists>msg. e = ValidationError msg"
proof (cases "rule1 (splitOn CHR '','' r) \<and> rule2 rt (splitOn CHR '','' r)
     \<and> rule3 rt (splitOn CHR '','' r)")
  case True
  then have p: "rule1 (splitOn CHR '','' r)" "rule2 rt (splitOn CHR '','' r)"
    "rule3 rt (splitOn CHR '','' r)" by simp_all
  from assms(1) have g: "length (splitOn CHR '','' r) = 8" "splitOn CHR '','' r ! 7 \<noteq> []"
    and pg: "parseGoals rt (splitOn CHR '','' r ! 7) = Inl e"
    by (auto simp: parseRecord_past_rule3 [OF p] Let_def split: if_splits sum.splits)
  from pg have "mapGoals rt (splitOn CHR ''|'' (splitOn CHR '','' r ! 7)) = Inl e"
    by (simp add: parseGoals_def)
  from mapGoals_validation [OF this] assms(2) g show ?thesis by simp
next
  case False
  then consider "\<not> rule1 (splitOn CHR '','' r)"
    | "rule1 (splitOn CHR '','' r)" "\<not> rule2 rt (splitOn CHR '','' r)"
    | "rule1 (splitOn CHR '','' r)" "rule2 rt (splitOn CHR '','' r)" "\<not> rule3 rt (splitOn CHR '','' r)"
    by blast
  then show ?thesis
  proof cases
    case 1
    with parseRecord_rule1 [OF 1, of rt mm] assms(1) show ?thesis by simp
  next
    case 2
    with parseRecord_rule2 [OF 2, of mm] assms(1) show ?thesis by auto
  next
    case 3
    with parseRecord_rule3 [OF 3, of mm] assms(1) show ?thesis by simp
  qed
qed


text \<open>
  C3, as the code has it. \<open>parseRecord\<close> succeeds exactly on the lines that pass the four
  rules above, where rule 3 accepts whatever \<^verbatim>\<open>Number\<close> converts (not only finite
  integers) and rule 4 looks at the first two pieces around \<^verbatim>\<open>@\<close> and around the colon.
  The rules are tried in order and the first that fails gives the error: the field count,
  then the first field that is not a UUID, then the timestamp. Every failure is a
  \<open>ValidationError\<close> provided each segment of the eighth field holds an \<^verbatim>\<open>@\<close>.
\<close>

theorem parseRecord_accepts_iff_rules:
  "(fst (parseRecord rt r mm) = None \<longleftrightarrow>
      rule1 (splitOn CHR '','' r) \<and> rule2 rt (splitOn CHR '','' r)
      \<and> rule3 rt (splitOn CHR '','' r) \<and> rule4 rt (splitOn CHR '','' r))
   \<and> (\<not> rule1 (splitOn CHR '','' r) \<longrightarrow>
        fst (parseRecord rt r mm) = Some (ValidationError
           (''Invalid record format: expected 7 or 8 fields, got ''
              @ showNat (length (splitOn CHR '','' r)))))
   \<and> (rule1 (splitOn CHR '','' r) \<and> \<not> rule2 rt (splitOn CHR '','' r) \<longrightarrow>
        (\<exists>index \<in> set guidFields. \<not> isUuid rt (splitOn CHR '','' r ! index)
           \<and> fst (parseRecord rt r mm) = Some (ValidationError
               (''Invalid GUID at position '' @ showNat (index + 1) @ '': ''
                  @ splitOn CHR '','' r ! index))))
   \<and> (rule1 (splitOn CHR '','' r) \<and> rule2 rt (splitOn CHR '','' r)
        \<and> \<not> rule3 rt (splitOn CHR '','' r) \<longrightarrow>
        fst (parseRecord rt r mm)
           = Some (ValidationError (''Invalid timestamp: '' @ splitOn CHR '','' r ! 3)))
   \<and> ((length (splitOn CHR '','' r) = 8 \<longrightarrow>
          (\<forall>seg \<in> set (splitOn CHR ''|'' (splitOn CHR '','' r ! 7)). CHR ''@'' \<in> set seg)) \<longrightarrow>
        (\<forall>e. fst (parseRecord rt r mm) = Some e \<longrightarrow> (\<exists>msg. e = ValidationError msg)))"
proof (intro conjI)
  show "fst (parseRecord rt r mm) = None \<longleftrightarrow>
      rule1 (splitOn CHR '','' r) \<and> rule2 rt (splitOn CHR '','' r)
      \<and> rule3 rt (splitOn CHR '','' r) \<and> rule4 rt (splitOn CHR '','' r)"
    by (rule parseRecord_None_iff)
next
  show "\<not> rule1 (splitOn CHR '','' r) \<longrightarrow>
        fst (parseRecord rt r mm) = Some (ValidationError
           (''Invalid record format: expected 7 or 8 fields, got ''
              @ showNat (length (splitOn CHR '','' r))))"
    using parseRecord_rule1 by blast
next
  show "rule1 (splitOn CHR '','' r) \<and> \<not> rule2 rt (splitOn CHR '','' r) \<longrightarrow>
        (\<exists>index \<in> set guidFields. \<not> isUuid rt (splitOn CHR '','' r ! index)
           \<and> fst (parseRecord rt r mm) = Some (ValidationError
               (''Invalid GUID at position '' @ showNat (index + 1) @ '': ''
                  @ splitOn CHR '','' r ! index)))"
    using parseRecord_rule2 [of r rt mm] by blast
next
  show "rule1 (splitOn CHR '','' r) \<and> rule2 rt (splitOn CHR '','' r)
        \<and> \<not> rule3 rt (splitOn CHR '','' r) \<longrightarrow>
        fst (parseRecord rt r mm)
           = Some (ValidationError (''Invalid timestamp: '' @ splitOn CHR '','' r ! 3))"
    using parseRecord_rule3 [of r rt mm] by blast
next
  show "(length (splitOn CHR '','' r) = 8 \<longrightarrow>
          (\<forall>seg \<in> set (splitOn CHR ''|'' (splitOn CHR '','' r ! 7)). CHR ''@'' \<in> set seg)) \<longrightarrow>
        (\<forall>e. fst (parseRecord rt r mm) = Some e \<longrightarrow> (\<exists>msg. e = ValidationError msg))"
    using parseRecord_validation [of rt r mm] by blast
qed

theorem parseRecord_accepts_iff_rules_witness:
  "fst (parseRecord (jsRuntime s1Endpoint) s1Record clearState) = None
   \<and> fst (parseRecord (jsRuntime s1Endpoint) sixFieldRecord clearState)
       = Some (ValidationError ''Invalid record format: expected 7 or 8 fields, got 6'')"
proof -
  let ?rt = "jsRuntime s1Endpoint"
  have r1: "rule1 (splitOn CHR '','' s1Record)" by code_simp
  have r2: "rule2 ?rt (splitOn CHR '','' s1Record)" by code_simp
  have r3: "rule3 ?rt (splitOn CHR '','' s1Record)" by code_simp
  have r4: "rule4 ?rt (splitOn CHR '','' s1Record)" by code_simp
  have n1: "\<not> rule1 (splitOn CHR '','' sixFieldRecord)" by code_simp
  have six: "showNat (length (splitOn CHR '','' sixFieldRecord)) = ''6''" by code_simp
  from parseRecord_accepts_iff_rules [of ?rt s1Record clearState] r1 r2 r3 r4
  have a: "fst (parseRecord ?rt s1Record clearState) = None" by blast
  from parseRecord_accepts_iff_rules [of ?rt sixFieldRecord clearState] n1
  have "fst (parseRecord ?rt sixFieldRecord clearState) = Some (ValidationError
           (''Invalid record format: expected 7 or 8 fields, got ''
              @ showNat (length (splitOn CHR '','' sixFieldRecord))))" by blast
  with six a show ?thesis by simp
qed

text \<open>
  C3, as stated, fails. Field 3 need not be a finite integer: \<open>1.5\<close> and \<open>Infinity\<close>
  are accepted. The scores need not be a pair of integers: \<open>1.5:2:7@x\<close> is accepted as
  1.5 to 2. And a failure need not be a \<open>ValidationError\<close>: a period with no \<^verbatim>\<open>@\<close>
  fails with a \<open>TypeError\<close>.
\<close>

theorem parseRecord_accepts_non_integers_counterexample:
  "fst (parseRecord (jsRuntime s1Endpoint) fractionRecord clearState) = None
   \<and> startTime (snd (parseRecord (jsRuntime s1Endpoint) fractionRecord clearState))
       = Some (Finite (3 / 2))
   \<and> fst (parseRecord (jsRuntime s1Endpoint) infinityRecord clearState) = None
   \<and> startTime (snd (parseRecord (jsRuntime s1Endpoint) infinityRecord clearState))
       = Some PosInfinity
   \<and> fst (parseRecord (jsRuntime s1Endpoint) looseGoalsRecord clearState) = None
   \<and> goals (snd (parseRecord (jsRuntime s1Endpoint) looseGoalsRecord clearState))
       = [\<lparr> period = ''5c3a00b4-6dca-4439-8340-9eba10777517'',
            homeGoals = Finite (3 / 2), awayGoals = Finite 2 \<rparr>]
   \<and> fst (parseRecord (jsRuntime s1Endpoint) noScoresRecord clearState) = Some TypeError"
  by code_simp

text \<open>
  C10. Let \<^verbatim>\<open>Number\<close> convert field 3 of a line to 0. Then the timestamp check passes,
  so \<open>parseRecord\<close> succeeds exactly when the other three rules hold; and whenever it
  succeeds, the stored start time is 0 and \<open>renderMatchObject\<close> fails at its guard with
  \<open>Match data not initialized\<close>, before any lookup (the resolver is untouched).
\<close>

theorem zero_start_time_never_renders:
  assumes "toNumber rt (splitOn CHR '','' r ! 3) = Finite 0"
  shows "(fst (parseRecord rt r mm) = None \<longleftrightarrow>
            rule1 (splitOn CHR '','' r) \<and> rule2 rt (splitOn CHR '','' r)
            \<and> rule4 rt (splitOn CHR '','' r))
       \<and> (fst (parseRecord rt r mm) = None \<longrightarrow>
            startTime (snd (parseRecord rt r mm)) = Some (Finite 0)
            \<and> (\<forall>gm. renderMatchObject rt (snd (parseRecord rt r mm)) gm
                  = (Inl (ValidationError ''Match data not initialized. Call parseRecord first.''),
                     gm)))"
proof -
  from assms have r3: "rule3 rt (splitOn CHR '','' r)"
    by (simp add: rule3_def isNaN_def)
  with parseRecord_None_iff [of rt r mm]
  have a: "fst (parseRecord rt r mm) = None \<longleftrightarrow>
            rule1 (splitOn CHR '','' r) \<and> rule2 rt (splitOn CHR '','' r)
            \<and> rule4 rt (splitOn CHR '','' r)" by simp
  have b: "fst (parseRecord rt r mm) = None \<longrightarrow>
            startTime (snd (parseRecord rt r mm)) = Some (Finite 0)
            \<and> (\<forall>gm. renderMatchObject rt (snd (parseRecord rt r mm)) gm
                  = (Inl (ValidationError ''Match data not initialized. Call parseRecord first.''),
                     gm))"
  proof
    assume ok: "fst (parseRecord rt r mm) = None"
    with a r3 have p: "rule1 (splitOn CHR '','' r)" "rule2 rt (splitOn CHR '','' r)"
      "rule3 rt (splitOn CHR '','' r)" by simp_all
    have st: "startTime (snd (parseRecord rt r mm)) = Some (Finite 0)"
      using assms
      by (auto simp: parseRecord_past_rule3 [OF p] Let_def assigned_def split: sum.splits)
    then have "notInitialized (snd (parseRecord rt r mm))"
      by (simp add: notInitialized_def falsyNumber_def)
    then have "\<forall>gm. renderMatchObject rt (snd (parseRecord rt r mm)) gm
                  = (Inl (ValidationError ''Match data not initialized. Call parseRecord first.''),
                     gm)"
      by (simp add: renderMatchObject_def)
    with st show "startTime (snd (parseRecord rt r mm)) = Some (Finite 0)
            \<and> (\<forall>gm. renderMatchObject rt (snd (parseRecord rt r mm)) gm
                  = (Inl (ValidationError ''Match data not initialized. Call parseRecord first.''),
                     gm))" by simp
  qed
  from a b show ?thesis by simp
qed

theorem zero_start_time_never_renders_witness:
  "fst (parseRecord (jsRuntime s1Endpoint) zeroRecord clearState) = None
   \<and> fst (renderMatchObject (jsRuntime s1Endpoint)
            (snd (parseRecord (jsRuntime s1Endpoint) zeroRecord clearState)) newGuidMapper)
       = Inl (ValidationError ''Match data not initialized. Call parseRecord first.'')
   \<and> fst (parseRecord (jsRuntime s1Endpoint) emptyTimeRecord clearState) = None
   \<and> fst (renderMatchObject (jsRuntime s1Endpoint)
            (snd (parseRecord (jsRuntime s1Endpoint) emptyTimeRecord clearState)) newGuidMapper)
       = Inl (ValidationError ''Match data not initialized. Call parseRecord first.'')"
proof -
  let ?rt = "jsRuntime s1Endpoint"
  have z: "toNumber ?rt (splitOn CHR '','' zeroRecord ! 3) = Finite 0" by code_simp
  have e: "toNumber ?rt (splitOn CHR '','' emptyTimeRecord ! 3) = Finite 0" by code_simp
  have zr: "rule1 (splitOn CHR '','' zeroRecord) \<and> rule2 ?rt (splitOn CHR '','' zeroRecord)
            \<and> rule4 ?rt (splitOn CHR '','' zeroRecord)" by code_simp
  have er: "rule1 (splitOn CHR '','' emptyTimeRecord) \<and> rule2 ?rt (splitOn CHR '','' emptyTimeRecord)
            \<and> rule4 ?rt (splitOn CHR '','' emptyTimeRecord)" by code_simp
  note tz = zero_start_time_never_renders [OF z, of clearState]
  note te = zero_start_time_never_renders [OF e, of clearState]
  from tz zr have z1: "fst (parseRecord ?rt zeroRecord clearState) = None" by blast
  from te er have e1: "fst (parseRecord ?rt emptyTimeRecord clearState) = None" by blast
  from tz z1 have z2: "renderMatchObject ?rt (snd (parseRecord ?rt zeroRecord clearState)) newGuidMapper
      = (Inl (ValidationError ''Match data not initialized. Call parseRecord first.''), newGuidMapper)"
    by blast
  from te e1 have e2: "renderMatchObject ?rt (snd (parseRecord ?rt emptyTimeRecord clearState)) newGuidMapper
      = (Inl (ValidationError ''Match data not initialized. Call parseRecord first.''), newGuidMapper)"
    by blast
  from z1 z2 e1 e2 show ?thesis by simp
qed

section \<open>Properties: history store\<close>

lemma keys_setProp:
  "map fst (setProp k v m) = (if k \<in> set (map fst m) then map fst m else map fst m @ [k])"
  by (induction m) (auto simp: rev_image_eqI)

lemma distinct_setProp:
  "distinct (map fst m) \<Longrightarrow> distinct (map fst (setProp k v m))"
  by (simp add: keys_setProp)

lemma set_setProp:
  "distinct (map fst m) \<Longrightarrow> set (setProp k v m) = {p \<in> set m. fst p \<noteq> k} \<union> {(k, v)}"
proof (induction m)
  case Nil
  then show ?case by simp
next
  case (Cons a m)
  obtain k' v' where a: "a = (k', v')" by (cases a)
  show ?case
  proof (cases "k' = k")
    case True
    with Cons.prems a have "\<forall>p \<in> set m. fst p \<noteq> k" by auto
    with True a show ?thesis by auto
  next
    case False
    with Cons a show ?thesis by auto
  qed
qed

lemma getProp_insert:
  "getProp (insertMatchRecord i e st) j
     = (if j = i then Some (getMatchHistory st i @ [e]) else getProp st j)"
  by (simp add: insertMatchRecord_def getMatchHistory_def getProp_setProp Let_def)

lemma current_insert:
  "getCurrentMatchEntry (insertMatchRecord i e st) j
     = (if j = i then Some e else getCurrentMatchEntry st j)"
  by (simp add: getCurrentMatchEntry_def getProp_insert)

lemma history_insert:
  "getMatchHistory (insertMatchRecord i e st) j
     = (if j = i then getMatchHistory st i @ [e] else getMatchHistory st j)"
  by (simp add: getMatchHistory_def getProp_insert)

lemma distinct_insert:
  "distinct (map fst st) \<Longrightarrow> distinct (map fst (insertMatchRecord i e st))"
  by (simp add: insertMatchRecord_def Let_def distinct_setProp)

lemma nonempty_insert:
  assumes "distinct (map fst st)" "\<forall>(k, h) \<in> set st. h \<noteq> []"
  shows "\<forall>(k, h) \<in> set (insertMatchRecord i e st). h \<noteq> []"
  using assms by (auto simp: insertMatchRecord_def Let_def set_setProp)

lemma parseRecord_W_storage:
  "parseRecord_W rt r w = (res, w') \<Longrightarrow> storage w' = storage w"
  by (auto simp: parseRecord_W_def split: prod.splits)

lemma renderMatchObject_W_storage:
  "renderMatchObject_W rt w = (res, w') \<Longrightarrow> storage w' = storage w"
  by (auto simp: renderMatchObject_W_def split: prod.splits)

lemma parseRecord_W_result:
  "fst (parseRecord_W rt r w) = fst (parseRecord rt r clearState)"
  by (simp add: parseRecord_W_def parseRecord_def split: prod.splits)

text \<open>What one call of \<open>processMatchUpdate\<close> does to the store.\<close>

lemma processMatchUpdate_storage:
  assumes "processMatchUpdate rt i r w = (res, w')"
  shows "storage w' = storage w
       \<or> (\<exists>e. rawData e = r \<and> storage w' = insertMatchRecord i e (storage w) \<and> res = None)"
proof -
  obtain p w1 where p: "parseRecord_W rt r w = (p, w1)" by (cases "parseRecord_W rt r w") auto
  obtain q w2 where q: "renderMatchObject_W rt w1 = (q, w2)"
    by (cases "renderMatchObject_W rt w1") auto
  from parseRecord_W_storage [OF p] renderMatchObject_W_storage [OF q]
  have s: "storage w1 = storage w" "storage w2 = storage w" by simp_all
  from assms p q s show ?thesis
    by (fastforce simp: processMatchUpdate_def Let_def split: option.splits if_splits sum.splits)
qed

lemma processMatchUpdate_ok:
  assumes "processMatchUpdate rt i r w = (None, w')"
  shows "(\<exists>e. getCurrentMatchEntry (storage w') i = Some e \<and> rawData e = r)
       \<and> fst (parseRecord rt r clearState) = None"
proof -
  obtain p w1 where p: "parseRecord_W rt r w = (p, w1)" by (cases "parseRecord_W rt r w") auto
  obtain q w2 where q: "renderMatchObject_W rt w1 = (q, w2)"
    by (cases "renderMatchObject_W rt w1") auto
  from parseRecord_W_storage [OF p] renderMatchObject_W_storage [OF q]
  have s: "storage w1 = storage w" "storage w2 = storage w" by simp_all
  from p have pr: "p = fst (parseRecord rt r clearState)"
    using parseRecord_W_result [of rt r w] by simp
  from assms p q s pr show ?thesis
    by (auto simp: processMatchUpdate_def Let_def current_insert
        split: option.splits if_splits sum.splits)
qed

lemma processMatchUpdate_same:
  assumes "getCurrentMatchEntry (storage w) i = Some e" "rawData e = r"
    "fst (parseRecord rt r clearState) = None"
  shows "\<exists>w'. processMatchUpdate rt i r w = (None, w') \<and> storage w' = storage w"
proof -
  obtain p w1 where p: "parseRecord_W rt r w = (p, w1)" by (cases "parseRecord_W rt r w") auto
  from p assms(3) have "p = None" using parseRecord_W_result [of rt r w] by simp
  with p assms parseRecord_W_storage [OF p] show ?thesis
    by (simp add: processMatchUpdate_def Let_def)
qed


lemma processMatchUpdate_other:
  assumes "processMatchUpdate rt i r w = (res, w')" "j \<noteq> i"
  shows "getProp (storage w') j = getProp (storage w) j"
  using processMatchUpdate_storage [OF assms(1)] assms(2)
  by (auto simp: getProp_insert)

lemma processMatchUpdate_distinct:
  assumes "processMatchUpdate rt i r w = (res, w')" "distinct (map fst (storage w))"
  shows "distinct (map fst (storage w'))"
  using processMatchUpdate_storage [OF assms(1)] assms(2)
  by (auto simp: distinct_insert)

lemma processMatchUpdate_nonempty:
  assumes "processMatchUpdate rt i r w = (res, w')" "distinct (map fst (storage w))"
    "\<forall>(k, h) \<in> set (storage w). h \<noteq> []"
  shows "\<forall>(k, h) \<in> set (storage w'). h \<noteq> []"
proof -
  from processMatchUpdate_storage [OF assms(1)]
  consider "storage w' = storage w"
    | e where "storage w' = insertMatchRecord i e (storage w)" by blast
  then show ?thesis
  proof cases
    case 1
    with assms(3) show ?thesis by simp
  next
    case 2
    with nonempty_insert [OF assms(2,3), of i e] show ?thesis by simp
  qed
qed

lemma processUpdates_ok:
  assumes "processUpdates rt rs w = (None, w', ids)"
  shows "ids = map matchIdOf rs
       \<and> (\<forall>j. j \<notin> set ids \<longrightarrow> getProp (storage w') j = getProp (storage w) j)
       \<and> (\<forall>r \<in> set rs. isUuid rt (matchIdOf r) \<and> fst (parseRecord rt r clearState) = None)"
  using assms
proof (induction rs arbitrary: w w' ids)
  case Nil
  then show ?case by simp
next
  case (Cons r rs)
  from Cons.prems have u: "isUuid rt (matchIdOf r)"
    by (auto simp: Let_def split: if_splits)
  obtain res1 w1 where one: "processMatchUpdate rt (matchIdOf r) r w = (res1, w1)"
    by (cases "processMatchUpdate rt (matchIdOf r) r w") auto
  obtain res2 w2 ids2 where rest: "processUpdates rt rs w1 = (res2, w2, ids2)"
    by (cases "processUpdates rt rs w1") auto
  from Cons.prems u one rest have e: "res1 = None" "res2 = None" "w' = w2"
    "ids = matchIdOf r # ids2"
    by (auto simp: Let_def split: option.splits)
  from one e have one': "processMatchUpdate rt (matchIdOf r) r w = (None, w1)" by simp
  from rest e have rest': "processUpdates rt rs w1 = (None, w2, ids2)" by simp
  note ih = Cons.IH [OF rest']
  note ok = processMatchUpdate_ok [OF one']
  have "\<forall>j. j \<notin> set ids \<longrightarrow> getProp (storage w') j = getProp (storage w) j"
  proof (intro allI impI)
    fix j assume "j \<notin> set ids"
    with e have j: "j \<noteq> matchIdOf r" "j \<notin> set ids2" by auto
    from ih j(2) have "getProp (storage w2) j = getProp (storage w1) j" by blast
    with processMatchUpdate_other [OF one j(1)] e show "getProp (storage w') j = getProp (storage w) j"
      by simp
  qed
  with ih u ok e show ?case by simp
qed

lemma processUpdates_invariants:
  assumes "processUpdates rt rs w = (res, w', ids)" "distinct (map fst (storage w))"
    "\<forall>(k, h) \<in> set (storage w). h \<noteq> []"
  shows "distinct (map fst (storage w')) \<and> (\<forall>(k, h) \<in> set (storage w'). h \<noteq> [])"
  using assms
proof (induction rs arbitrary: w w' res ids)
  case Nil
  then show ?case by simp
next
  case (Cons r rs)
  show ?case
  proof (cases "isUuid rt (matchIdOf r)")
    case False
    with Cons.prems show ?thesis by (auto simp: Let_def)
  next
    case True
    obtain res1 w1 where one: "processMatchUpdate rt (matchIdOf r) r w = (res1, w1)"
      by (cases "processMatchUpdate rt (matchIdOf r) r w") auto
    note d = processMatchUpdate_distinct [OF one Cons.prems(2)]
    note n = processMatchUpdate_nonempty [OF one Cons.prems(2,3)]
    show ?thesis
    proof (cases res1)
      case (Some e)
      with Cons.prems(1) True one have "w' = w1" by (simp add: Let_def)
      with d n show ?thesis by simp
    next
      case None
      obtain res2 w2 ids2 where rest: "processUpdates rt rs w1 = (res2, w2, ids2)"
        by (cases "processUpdates rt rs w1") auto
      with Cons.prems(1) True one None have "w' = w2" by (simp add: Let_def)
      with Cons.IH [OF rest d n] show ?thesis by simp
    qed
  qed
qed

lemma processUpdates_current:
  assumes "processUpdates rt rs w = (None, w', ids)"
    "\<forall>r \<in> set rs. \<forall>r' \<in> set rs. matchIdOf r = matchIdOf r' \<longrightarrow> r = r'"
  shows "\<forall>r \<in> set rs. \<exists>e. getCurrentMatchEntry (storage w') (matchIdOf r) = Some e \<and> rawData e = r"
  using assms
proof (induction rs arbitrary: w w' ids)
  case Nil
  then show ?case by simp
next
  case (Cons r rs)
  from Cons.prems(1) have u: "isUuid rt (matchIdOf r)"
    by (auto simp: Let_def split: if_splits)
  obtain res1 w1 where one: "processMatchUpdate rt (matchIdOf r) r w = (res1, w1)"
    by (cases "processMatchUpdate rt (matchIdOf r) r w") auto
  obtain res2 w2 ids2 where rest: "processUpdates rt rs w1 = (res2, w2, ids2)"
    by (cases "processUpdates rt rs w1") auto
  from Cons.prems(1) u one rest have e: "res1 = None" "res2 = None" "w' = w2"
    by (auto simp: Let_def split: option.splits)
  from one e have one': "processMatchUpdate rt (matchIdOf r) r w = (None, w1)" by simp
  from rest e have rest': "processUpdates rt rs w1 = (None, w2, ids2)" by simp
  from Cons.prems(2) have same: "\<forall>a \<in> set rs. \<forall>b \<in> set rs. matchIdOf a = matchIdOf b \<longrightarrow> a = b"
    by simp
  note ih = Cons.IH [OF rest' same]
  note ok = processUpdates_ok [OF rest']
  have "\<exists>e. getCurrentMatchEntry (storage w2) (matchIdOf r) = Some e \<and> rawData e = r"
  proof (cases "matchIdOf r \<in> set ids2")
    case True
    with ok obtain r' where r': "r' \<in> set rs" "matchIdOf r' = matchIdOf r" by auto
    with Cons.prems(2) have "r' = r" by simp
    with r' ih show ?thesis by auto
  next
    case False
    with ok have "getProp (storage w2) (matchIdOf r) = getProp (storage w1) (matchIdOf r)"
      by blast
    then have "getCurrentMatchEntry (storage w2) (matchIdOf r)
                 = getCurrentMatchEntry (storage w1) (matchIdOf r)"
      by (simp add: getCurrentMatchEntry_def)
    with processMatchUpdate_ok [OF one'] show ?thesis by simp
  qed
  with ih e show ?case by simp
qed

lemma getAll_Inr_iff:
  "(\<exists>ids. getAllMatchIdsByStatus s st = Inr ids) \<longleftrightarrow> (\<forall>(k, h) \<in> set st. h \<noteq> [])"
proof (induction st)
  case Nil
  then show ?case by simp
next
  case (Cons a st)
  obtain k h where a: "a = (k, h)" by (cases a)
  show ?case
  proof (cases "getAllMatchIdsByStatus s st")
    case (Inl e)
    with Cons.IH a show ?thesis by auto
  next
    case (Inr ids)
    with Cons.IH a show ?thesis by auto
  qed
qed

lemma getAll_members:
  "getAllMatchIdsByStatus s st = Inr ids \<Longrightarrow>
     set ids = {k. \<exists>h. (k, h) \<in> set st \<and> matchStatus (last h) = s}
     \<and> (distinct (map fst st) \<longrightarrow> distinct ids)"
proof (induction st arbitrary: ids)
  case Nil
  then show ?case by simp
next
  case (Cons a st)
  obtain k h where a: "a = (k, h)" by (cases a)
  from Cons.prems a obtain ids2 where r: "getAllMatchIdsByStatus s st = Inr ids2"
    and ne: "h \<noteq> []"
    and ids: "ids = (if matchStatus (last h) = s then k # ids2 else ids2)"
    by (auto split: if_splits sum.splits)
  note ih = Cons.IH [OF r]
  from ih have sub: "set ids2 \<subseteq> set (map fst st)" by force
  from ih ids a sub show ?case by auto
qed

lemma current_iff:
  assumes "distinct (map fst st)" "\<forall>(k, h) \<in> set st. h \<noteq> []"
  shows "getCurrentMatchEntry st k = Some e \<longleftrightarrow> (\<exists>h. (k, h) \<in> set st \<and> last h = e)"
proof
  assume "getCurrentMatchEntry st k = Some e"
  then obtain h where "map_of st k = Some h" "last h = e"
    by (auto simp: getCurrentMatchEntry_def getProp_def split: option.splits if_splits)
  then show "\<exists>h. (k, h) \<in> set st \<and> last h = e" by (auto dest: map_of_SomeD)
next
  assume "\<exists>h. (k, h) \<in> set st \<and> last h = e"
  then obtain h where h: "(k, h) \<in> set st" "last h = e" by blast
  with assms(1) have "map_of st k = Some h" by simp
  moreover from h assms(2) have "h \<noteq> []" by auto
  ultimately show "getCurrentMatchEntry st k = Some e"
    using h by (simp add: getCurrentMatchEntry_def getProp_def)
qed

lemma getAll_current:
  assumes "getAllMatchIdsByStatus s st = Inr ids" "distinct (map fst st)"
  shows "distinct ids
       \<and> (\<forall>k. k \<in> set ids \<longleftrightarrow> (\<exists>e. getCurrentMatchEntry st k = Some e \<and> matchStatus e = s))"
proof -
  from assms(1) have ne: "\<forall>(k, h) \<in> set st. h \<noteq> []"
    using getAll_Inr_iff [of s st] by blast
  from getAll_members [OF assms(1)] assms(2) current_iff [OF assms(2) ne]
  show ?thesis by auto
qed

lemma generateRemoved_ok:
  assumes "generateRemoved rt removed w = (None, w')" "distinct removed"
  shows "(\<forall>i \<in> set removed. \<exists>e.
            getCurrentMatchEntry (storage w') i = Some e
            \<and> rawData e = ''(Generated)'' \<and> matchStatus e = statusString REMOVED
            \<and> getMatchHistory (storage w') i = getMatchHistory (storage w) i @ [e])
       \<and> (\<forall>j. j \<notin> set removed \<longrightarrow> getProp (storage w') j = getProp (storage w) j)"
  using assms
proof (induction removed arbitrary: w w')
  case Nil
  then show ?case by simp
next
  case (Cons i rest)
  from Cons.prems(1) obtain lastE where cur: "getCurrentMatchEntry (storage w) i = Some lastE"
    by (auto split: option.splits)
  obtain p w1 where p: "parseRecord_W rt (rawData lastE) w = (p, w1)"
    by (cases "parseRecord_W rt (rawData lastE) w") auto
  obtain q w2 where q: "renderMatchObject_W rt w1 = (q, w2)"
    by (cases "renderMatchObject_W rt w1") auto
  from parseRecord_W_storage [OF p] renderMatchObject_W_storage [OF q]
  have s: "storage w2 = storage w" by simp
  from Cons.prems(1) cur p q obtain k m where km: "p = None" "q = Inr (k, m)"
    by (auto split: option.splits sum.splits)
  define g where "g = \<lparr> timestamp = dateNow rt (clockReads w2), rawData = ''(Generated)'',
       renderedData = stringify rt (k, if status m \<noteq> [] then m\<lparr>status := statusString REMOVED\<rparr> else m),
       matchStatus = statusString REMOVED \<rparr>"
  define w3 where "w3 = w2\<lparr>clockReads := Suc (clockReads w2),
                          storage := insertMatchRecord i g (storage w2)\<rparr>"
  from Cons.prems(1) cur p q km have rec: "generateRemoved rt rest w3 = (None, w')"
    by (simp add: g_def w3_def Let_def)
  from Cons.prems(2) have d: "distinct rest" "i \<notin> set rest" by simp_all
  note ih = Cons.IH [OF rec d(1)]
  have st3: "storage w3 = insertMatchRecord i g (storage w)"
    using s by (simp add: w3_def)
  from ih d(2) have keep: "getProp (storage w') i = getProp (storage w3) i" by blast
  have gi: "getProp (storage w3) i = Some (getMatchHistory (storage w) i @ [g])"
    by (simp add: st3 getProp_insert)
  from keep gi have head: "getCurrentMatchEntry (storage w') i = Some g
      \<and> getMatchHistory (storage w') i = getMatchHistory (storage w) i @ [g]"
    by (simp add: getCurrentMatchEntry_def getMatchHistory_def)
  have gfields: "rawData g = ''(Generated)''" "matchStatus g = statusString REMOVED"
    by (simp_all add: g_def)
  have tailpart: "\<forall>x \<in> set rest. \<exists>e.
            getCurrentMatchEntry (storage w') x = Some e
            \<and> rawData e = ''(Generated)'' \<and> matchStatus e = statusString REMOVED
            \<and> getMatchHistory (storage w') x = getMatchHistory (storage w) x @ [e]"
  proof
    fix x assume x: "x \<in> set rest"
    with d(2) have "x \<noteq> i" by auto
    then have "getMatchHistory (storage w3) x = getMatchHistory (storage w) x"
      by (simp add: st3 history_insert)
    with ih x show "\<exists>e.
            getCurrentMatchEntry (storage w') x = Some e
            \<and> rawData e = ''(Generated)'' \<and> matchStatus e = statusString REMOVED
            \<and> getMatchHistory (storage w') x = getMatchHistory (storage w) x @ [e]"
      by auto
  qed
  have others: "\<forall>j. j \<notin> set (i # rest) \<longrightarrow> getProp (storage w') j = getProp (storage w) j"
  proof (intro allI impI)
    fix j assume "j \<notin> set (i # rest)"
    then have j: "j \<noteq> i" "j \<notin> set rest" by auto
    from ih j(2) have "getProp (storage w') j = getProp (storage w3) j" by blast
    with j(1) show "getProp (storage w') j = getProp (storage w) j"
      by (simp add: st3 getProp_insert)
  qed
  from head gfields tailpart others show ?case by auto
qed


lemma processUpdates_distinct:
  assumes "processUpdates rt rs w = (res, w', ids)" "distinct (map fst (storage w))"
  shows "distinct (map fst (storage w'))"
  using assms
proof (induction rs arbitrary: w w' res ids)
  case Nil
  then show ?case by simp
next
  case (Cons r rs)
  show ?case
  proof (cases "isUuid rt (matchIdOf r)")
    case False
    with Cons.prems show ?thesis by (auto simp: Let_def)
  next
    case True
    obtain res1 w1 where one: "processMatchUpdate rt (matchIdOf r) r w = (res1, w1)"
      by (cases "processMatchUpdate rt (matchIdOf r) r w") auto
    note d = processMatchUpdate_distinct [OF one Cons.prems(2)]
    show ?thesis
    proof (cases res1)
      case (Some e)
      with Cons.prems(1) True one have "w' = w1" by (simp add: Let_def)
      with d show ?thesis by simp
    next
      case None
      obtain res2 w2 ids2 where rest: "processUpdates rt rs w1 = (res2, w2, ids2)"
        by (cases "processUpdates rt rs w1") auto
      with Cons.prems(1) True one None have "w' = w2" by (simp add: Let_def)
      with Cons.IH [OF rest d] show ?thesis by simp
    qed
  qed
qed

lemma processUpdates_from_lines:
  assumes "processUpdates rt rs w = (None, w', ids)"
  shows "\<forall>i \<in> set ids. \<exists>e r. r \<in> set rs \<and> matchIdOf r = i
            \<and> getCurrentMatchEntry (storage w') i = Some e \<and> rawData e = r"
  using assms
proof (induction rs arbitrary: w w' ids)
  case Nil
  then show ?case by simp
next
  case (Cons r rs)
  from Cons.prems(1) have u: "isUuid rt (matchIdOf r)"
    by (auto simp: Let_def split: if_splits)
  obtain res1 w1 where one: "processMatchUpdate rt (matchIdOf r) r w = (res1, w1)"
    by (cases "processMatchUpdate rt (matchIdOf r) r w") auto
  obtain res2 w2 ids2 where rest: "processUpdates rt rs w1 = (res2, w2, ids2)"
    by (cases "processUpdates rt rs w1") auto
  from Cons.prems(1) u one rest have e: "res1 = None" "res2 = None" "w' = w2"
    "ids = matchIdOf r # ids2"
    by (auto simp: Let_def split: option.splits)
  from one e have one': "processMatchUpdate rt (matchIdOf r) r w = (None, w1)" by simp
  from rest e have rest': "processUpdates rt rs w1 = (None, w2, ids2)" by simp
  note ih = Cons.IH [OF rest']
  note ok = processUpdates_ok [OF rest']
  have hd: "\<exists>e r'. r' \<in> set (r # rs) \<and> matchIdOf r' = matchIdOf r
            \<and> getCurrentMatchEntry (storage w2) (matchIdOf r) = Some e \<and> rawData e = r'"
  proof (cases "matchIdOf r \<in> set ids2")
    case True
    with ih show ?thesis by fastforce
  next
    case False
    with ok have "getProp (storage w2) (matchIdOf r) = getProp (storage w1) (matchIdOf r)"
      by blast
    then have "getCurrentMatchEntry (storage w2) (matchIdOf r)
                 = getCurrentMatchEntry (storage w1) (matchIdOf r)"
      by (simp add: getCurrentMatchEntry_def)
    with processMatchUpdate_ok [OF one'] show ?thesis by auto
  qed
  show ?case
  proof
    fix i assume "i \<in> set ids"
    with e consider "i = matchIdOf r" | "i \<in> set ids2" by auto
    then show "\<exists>e r'. r' \<in> set (r # rs) \<and> matchIdOf r' = i
            \<and> getCurrentMatchEntry (storage w') i = Some e \<and> rawData e = r'"
    proof cases
      case 1
      with hd e show ?thesis by simp
    next
      case 2
      with ih e show ?thesis by fastforce
    qed
  qed
qed

lemma processUpdates_repeat:
  assumes "\<forall>r \<in> set rs. isUuid rt (matchIdOf r) \<and> fst (parseRecord rt r clearState) = None
             \<and> (\<exists>e. getCurrentMatchEntry (storage w) (matchIdOf r) = Some e \<and> rawData e = r)"
  shows "\<exists>w'. processUpdates rt rs w = (None, w', map matchIdOf rs) \<and> storage w' = storage w"
  using assms
proof (induction rs arbitrary: w)
  case Nil
  then show ?case by simp
next
  case (Cons r rs)
  from Cons.prems obtain e where e: "isUuid rt (matchIdOf r)"
    "fst (parseRecord rt r clearState) = None"
    "getCurrentMatchEntry (storage w) (matchIdOf r) = Some e" "rawData e = r" by auto
  from processMatchUpdate_same [OF e(3,4,2)] obtain w1 where
    w1: "processMatchUpdate rt (matchIdOf r) r w = (None, w1)" "storage w1 = storage w" by blast
  from Cons.prems w1(2) have "\<forall>r \<in> set rs. isUuid rt (matchIdOf r)
             \<and> fst (parseRecord rt r clearState) = None
             \<and> (\<exists>e. getCurrentMatchEntry (storage w1) (matchIdOf r) = Some e \<and> rawData e = r)"
    by simp
  from Cons.IH [OF this] obtain w2 where
    w2: "processUpdates rt rs w1 = (None, w2, map matchIdOf rs)" "storage w2 = storage w1"
    by blast
  from e(1) w1 w2 show ?case by (simp add: Let_def)
qed

lemma generateRemoved_invariants:
  assumes "generateRemoved rt removed w = (res, w')" "distinct (map fst (storage w))"
    "\<forall>(k, h) \<in> set (storage w). h \<noteq> []"
  shows "distinct (map fst (storage w')) \<and> (\<forall>(k, h) \<in> set (storage w'). h \<noteq> [])"
  using assms
proof (induction removed arbitrary: w w' res)
  case Nil
  then show ?case by simp
next
  case (Cons i rest)
  show ?case
  proof (cases "getCurrentMatchEntry (storage w) i")
    case None
    with Cons.prems show ?thesis by simp
  next
    case (Some lastE)
    obtain p w1 where p: "parseRecord_W rt (rawData lastE) w = (p, w1)"
      by (cases "parseRecord_W rt (rawData lastE) w") auto
    obtain q w2 where q: "renderMatchObject_W rt w1 = (q, w2)"
      by (cases "renderMatchObject_W rt w1") auto
    from parseRecord_W_storage [OF p] renderMatchObject_W_storage [OF q]
    have s: "storage w1 = storage w" "storage w2 = storage w" by simp_all
    show ?thesis
    proof (cases "p = None \<and> (\<exists>km. q = Inr km)")
      case False
      with Cons.prems(1) Some p q have "w' = w1 \<or> w' = w2"
        by (auto split: option.splits sum.splits)
      with s Cons.prems(2,3) show ?thesis by auto
    next
      case True
      then obtain k m where km: "p = None" "q = Inr (k, m)" by auto
      define g where "g = \<lparr> timestamp = dateNow rt (clockReads w2), rawData = ''(Generated)'',
         renderedData = stringify rt (k, if status m \<noteq> [] then m\<lparr>status := statusString REMOVED\<rparr> else m),
         matchStatus = statusString REMOVED \<rparr>"
      define w3 where "w3 = w2\<lparr>clockReads := Suc (clockReads w2),
                          storage := insertMatchRecord i g (storage w2)\<rparr>"
      from Cons.prems(1) Some p q km have rec: "generateRemoved rt rest w3 = (res, w')"
        by (simp add: g_def w3_def Let_def)
      have st3: "storage w3 = insertMatchRecord i g (storage w)"
        using s by (simp add: w3_def)
      from st3 Cons.prems(2) have d3: "distinct (map fst (storage w3))"
        by (simp add: distinct_insert)
      from st3 nonempty_insert [OF Cons.prems(2,3), of i g]
      have n3: "\<forall>(k, h) \<in> set (storage w3). h \<noteq> []" by simp
      from Cons.IH [OF rec d3 n3] show ?thesis .
    qed
  qed
qed


lemma generateRemoved_distinct:
  assumes "generateRemoved rt removed w = (res, w')" "distinct (map fst (storage w))"
  shows "distinct (map fst (storage w'))"
  using assms
proof (induction removed arbitrary: w w' res)
  case Nil
  then show ?case by simp
next
  case (Cons i rest)
  show ?case
  proof (cases "getCurrentMatchEntry (storage w) i")
    case None
    with Cons.prems show ?thesis by simp
  next
    case (Some lastE)
    obtain p w1 where p: "parseRecord_W rt (rawData lastE) w = (p, w1)"
      by (cases "parseRecord_W rt (rawData lastE) w") auto
    obtain q w2 where q: "renderMatchObject_W rt w1 = (q, w2)"
      by (cases "renderMatchObject_W rt w1") auto
    from parseRecord_W_storage [OF p] renderMatchObject_W_storage [OF q]
    have s: "storage w1 = storage w" "storage w2 = storage w" by simp_all
    show ?thesis
    proof (cases "p = None \<and> (\<exists>km. q = Inr km)")
      case False
      with Cons.prems(1) Some p q have "w' = w1 \<or> w' = w2"
        by (auto split: option.splits sum.splits)
      with s Cons.prems(2) show ?thesis by auto
    next
      case True
      then obtain k m where km: "p = None" "q = Inr (k, m)" by auto
      define g where "g = \<lparr> timestamp = dateNow rt (clockReads w2), rawData = ''(Generated)'',
         renderedData = stringify rt (k, if status m \<noteq> [] then m\<lparr>status := statusString REMOVED\<rparr> else m),
         matchStatus = statusString REMOVED \<rparr>"
      define w3 where "w3 = w2\<lparr>clockReads := Suc (clockReads w2),
                          storage := insertMatchRecord i g (storage w2)\<rparr>"
      from Cons.prems(1) Some p q km have rec: "generateRemoved rt rest w3 = (res, w')"
        by (simp add: g_def w3_def Let_def)
      have st3: "storage w3 = insertMatchRecord i g (storage w)"
        using s by (simp add: w3_def)
      from st3 Cons.prems(2) have d3: "distinct (map fst (storage w3))"
        by (simp add: distinct_insert)
      from Cons.IH [OF rec d3] show ?thesis .
    qed
  qed
qed

text \<open>The keys of the store are distinct from the start and stay so.\<close>

lemma store_keys_distinct:
  "distinct (map fst (storage newWorld))"
  "distinct (map fst (storage w)) \<Longrightarrow>
     distinct (map fst (storage (snd (onEndpointChange_H rt u data w))))"
proof -
  show "distinct (map fst (storage newWorld))" by (simp add: newWorld_def)
  assume d: "distinct (map fst (storage w))"
  show "distinct (map fst (storage (snd (onEndpointChange_H rt u data w))))"
  proof (cases "jsonOdds rt data")
    case (Inl e)
    with d show ?thesis by (simp add: onEndpointChange_H_def)
  next
    case (Inr odds)
    obtain res wa ids where pu: "processUpdates rt (snapshotRecords odds) w = (res, wa, ids)"
      by (cases "processUpdates rt (snapshotRecords odds) w") auto
    note da = processUpdates_distinct [OF pu d]
    show ?thesis
    proof (cases res)
      case (Some e)
      with Inr pu da show ?thesis by (simp add: onEndpointChange_H_def)
    next
      case None
      show ?thesis
      proof (cases "getAllMatchIdsByStatus (statusString LIVE) (storage wa)")
        case (Inl e)
        with Inr pu da None show ?thesis
          by (simp add: onEndpointChange_H_def markMissingLiveMatchesAsRemoved_def)
      next
        case live: (Inr live)
        obtain r2 w2 where gr: "generateRemoved rt (filter (\<lambda>item. item \<notin> set ids) live) wa = (r2, w2)"
          by (cases "generateRemoved rt (filter (\<lambda>item. item \<notin> set ids) live) wa") auto
        from generateRemoved_distinct [OF gr da] Inr pu None live gr show ?thesis
          by (simp add: onEndpointChange_H_def markMissingLiveMatchesAsRemoved_def Let_def)
      qed
    qed
  qed
qed

lemma onEndpointChange_H_parts:
  assumes "jsonOdds rt data = Inr odds" "onEndpointChange_H rt u data w = (None, w')"
  shows "\<exists>wa live.
           processUpdates rt (snapshotRecords odds) w
             = (None, wa, map matchIdOf (snapshotRecords odds))
         \<and> getAllMatchIdsByStatus (statusString LIVE) (storage wa) = Inr live
         \<and> generateRemoved rt
              (filter (\<lambda>item. item \<notin> set (map matchIdOf (snapshotRecords odds))) live) wa
             = (None, w')"
proof -
  obtain res wa ids where pu: "processUpdates rt (snapshotRecords odds) w = (res, wa, ids)"
    by (cases "processUpdates rt (snapshotRecords odds) w") auto
  with assms have r: "res = None"
    by (cases res) (auto simp: onEndpointChange_H_def)
  with pu processUpdates_ok [of rt "snapshotRecords odds" w wa ids]
  have ids: "ids = map matchIdOf (snapshotRecords odds)" by simp
  from assms pu r have mm: "markMissingLiveMatchesAsRemoved rt ids wa = (None, w')"
    by (simp add: onEndpointChange_H_def)
  then obtain live where live: "getAllMatchIdsByStatus (statusString LIVE) (storage wa) = Inr live"
    by (cases "getAllMatchIdsByStatus (statusString LIVE) (storage wa)")
       (auto simp: markMissingLiveMatchesAsRemoved_def)
  with mm have "generateRemoved rt (filter (\<lambda>item. item \<notin> set ids) live) wa = (None, w')"
    by (simp add: markMissingLiveMatchesAsRemoved_def Let_def)
  with pu r ids live show ?thesis by auto
qed

lemma current_cong:
  "getProp st' i = getProp st i \<Longrightarrow>
     getCurrentMatchEntry st' i = getCurrentMatchEntry st i
     \<and> getMatchHistory st' i = getMatchHistory st i"
  by (simp add: getCurrentMatchEntry_def getMatchHistory_def)

text \<open>
  C1, as the code has it. Let the keys of the store be distinct (as they are from the start and remain,
  \<open>store_keys_distinct\<close>) and let the store process a snapshot to the end. The lines of
  the snapshot are those that are not blank. Then every match whose current entry was
  \<open>LIVE\<close> before and whose identifier is field 0 of no line has one more entry, its
  current one, with status \<open>REMOVED\<close> and raw data \<open>(Generated)\<close>. Every other match
  that is absent from the snapshot, a \<open>PRE\<close> match among them, has the history it had.
  And the current entry of a match of the snapshot holds one of its lines as raw data.
\<close>

theorem missing_live_matches_become_removed:
  assumes "distinct (map fst (storage w))" "jsonOdds rt data = Inr odds"
    "onEndpointChange_H rt u data w = (None, w')"
  shows "(\<forall>i. (\<exists>e. getCurrentMatchEntry (storage w) i = Some e
                    \<and> matchStatus e = statusString LIVE)
              \<and> i \<notin> set (map matchIdOf (snapshotRecords odds)) \<longrightarrow>
            (\<exists>g. getCurrentMatchEntry (storage w') i = Some g
                  \<and> matchStatus g = statusString REMOVED \<and> rawData g = ''(Generated)''
                  \<and> getMatchHistory (storage w') i = getMatchHistory (storage w) i @ [g]))
       \<and> (\<forall>i. \<not> (\<exists>e. getCurrentMatchEntry (storage w) i = Some e
                    \<and> matchStatus e = statusString LIVE)
              \<and> i \<notin> set (map matchIdOf (snapshotRecords odds)) \<longrightarrow>
            getMatchHistory (storage w') i = getMatchHistory (storage w) i)
       \<and> (\<forall>i \<in> set (map matchIdOf (snapshotRecords odds)).
            \<exists>e r. r \<in> set (snapshotRecords odds) \<and> matchIdOf r = i
              \<and> getCurrentMatchEntry (storage w') i = Some e \<and> rawData e = r)"
proof -
  let ?ids = "map matchIdOf (snapshotRecords odds)"
  from onEndpointChange_H_parts [OF assms(2,3)] obtain wa live where
    pu: "processUpdates rt (snapshotRecords odds) w = (None, wa, ?ids)"
    and live: "getAllMatchIdsByStatus (statusString LIVE) (storage wa) = Inr live"
    and gr: "generateRemoved rt (filter (\<lambda>item. item \<notin> set ?ids) live) wa = (None, w')"
    by blast
  let ?removed = "filter (\<lambda>item. item \<notin> set ?ids) live"
  note ok = processUpdates_ok [OF pu]
  note da = processUpdates_distinct [OF pu assms(1)]
  note members = getAll_current [OF live da]
  from members have dr: "distinct ?removed" by simp
  note gen = generateRemoved_ok [OF gr dr]
  have absent: "\<And>i. i \<notin> set ?ids \<Longrightarrow> getProp (storage wa) i = getProp (storage w) i"
    using ok by blast
  have a: "\<forall>i. (\<exists>e. getCurrentMatchEntry (storage w) i = Some e
                    \<and> matchStatus e = statusString LIVE)
              \<and> i \<notin> set ?ids \<longrightarrow>
            (\<exists>g. getCurrentMatchEntry (storage w') i = Some g
                  \<and> matchStatus g = statusString REMOVED \<and> rawData g = ''(Generated)''
                  \<and> getMatchHistory (storage w') i = getMatchHistory (storage w) i @ [g])"
  proof (intro allI impI)
    fix i
    assume h: "(\<exists>e. getCurrentMatchEntry (storage w) i = Some e
                    \<and> matchStatus e = statusString LIVE) \<and> i \<notin> set ?ids"
    then have ni: "i \<notin> set ?ids" by simp
    note c = current_cong [OF absent [OF ni]]
    from h c have "\<exists>e. getCurrentMatchEntry (storage wa) i = Some e
                    \<and> matchStatus e = statusString LIVE" by simp
    with members have "i \<in> set live" by blast
    with ni have "i \<in> set ?removed" by simp
    with gen obtain g where "getCurrentMatchEntry (storage w') i = Some g"
      "rawData g = ''(Generated)''" "matchStatus g = statusString REMOVED"
      "getMatchHistory (storage w') i = getMatchHistory (storage wa) i @ [g]" by blast
    with c show "\<exists>g. getCurrentMatchEntry (storage w') i = Some g
                  \<and> matchStatus g = statusString REMOVED \<and> rawData g = ''(Generated)''
                  \<and> getMatchHistory (storage w') i = getMatchHistory (storage w) i @ [g]"
      by simp
  qed
  have b: "\<forall>i. \<not> (\<exists>e. getCurrentMatchEntry (storage w) i = Some e
                    \<and> matchStatus e = statusString LIVE)
              \<and> i \<notin> set ?ids \<longrightarrow>
            getMatchHistory (storage w') i = getMatchHistory (storage w) i"
  proof (intro allI impI)
    fix i
    assume h: "\<not> (\<exists>e. getCurrentMatchEntry (storage w) i = Some e
                    \<and> matchStatus e = statusString LIVE) \<and> i \<notin> set ?ids"
    then have ni: "i \<notin> set ?ids" by simp
    note c = current_cong [OF absent [OF ni]]
    from h c have "\<not> (\<exists>e. getCurrentMatchEntry (storage wa) i = Some e
                    \<and> matchStatus e = statusString LIVE)" by simp
    with members have "i \<notin> set live" by blast
    then have "i \<notin> set ?removed" by simp
    with gen have "getProp (storage w') i = getProp (storage wa) i" by blast
    from current_cong [OF this] c
    show "getMatchHistory (storage w') i = getMatchHistory (storage w) i" by simp
  qed
  have c: "\<forall>i \<in> set ?ids.
            \<exists>e r. r \<in> set (snapshotRecords odds) \<and> matchIdOf r = i
              \<and> getCurrentMatchEntry (storage w') i = Some e \<and> rawData e = r"
  proof
    fix i assume i: "i \<in> set ?ids"
    then have "i \<notin> set ?removed" by simp
    with gen have "getProp (storage w') i = getProp (storage wa) i" by blast
    from current_cong [OF this]
    have same: "getCurrentMatchEntry (storage w') i = getCurrentMatchEntry (storage wa) i"
      by simp
    from processUpdates_from_lines [OF pu] i obtain e r where
      "r \<in> set (snapshotRecords odds)" "matchIdOf r = i"
      "getCurrentMatchEntry (storage wa) i = Some e" "rawData e = r" by blast
    with same
    show "\<exists>e r. r \<in> set (snapshotRecords odds) \<and> matchIdOf r = i
              \<and> getCurrentMatchEntry (storage w') i = Some e \<and> rawData e = r"
      by auto
  qed
  from a b c show ?thesis by blast
qed

text \<open>
  C2, as the code has it. Let the store process a snapshot to the end, and let any two lines
  of the snapshot with the same match identifier be the same line. Then a second delivery
  of the snapshot succeeds and leaves the store as it is: every line equals the raw data of
  the current entry of its match and is skipped, and the sweep finds no \<open>LIVE\<close> match
  outside the snapshot, those of before the first delivery being \<open>REMOVED\<close> now.
\<close>

theorem repeated_snapshot_changes_nothing:
  assumes "distinct (map fst (storage w))" "jsonOdds rt data = Inr odds"
    "\<forall>r \<in> set (snapshotRecords odds). \<forall>r' \<in> set (snapshotRecords odds).
        matchIdOf r = matchIdOf r' \<longrightarrow> r = r'"
    "onEndpointChange_H rt u data w = (None, w1)"
  shows "\<exists>w2. onEndpointChange_H rt u data w1 = (None, w2)
           \<and> storage w2 = storage w1
           \<and> (\<forall>i. length (getMatchHistory (storage w2) i)
                     = length (getMatchHistory (storage w1) i))"
proof -
  let ?rs = "snapshotRecords odds"
  let ?ids = "map matchIdOf ?rs"
  from onEndpointChange_H_parts [OF assms(2,4)] obtain wa live where
    pu: "processUpdates rt ?rs w = (None, wa, ?ids)"
    and live: "getAllMatchIdsByStatus (statusString LIVE) (storage wa) = Inr live"
    and gr: "generateRemoved rt (filter (\<lambda>item. item \<notin> set ?ids) live) wa = (None, w1)"
    by blast
  let ?removed = "filter (\<lambda>item. item \<notin> set ?ids) live"
  note ok = processUpdates_ok [OF pu]
  note da = processUpdates_distinct [OF pu assms(1)]
  note members = getAll_current [OF live da]
  from members have dr: "distinct ?removed" by simp
  note gen = generateRemoved_ok [OF gr dr]
  from live have na: "\<forall>(k, h) \<in> set (storage wa). h \<noteq> []"
    using getAll_Inr_iff [of "statusString LIVE" "storage wa"] by blast
  note inv1 = generateRemoved_invariants [OF gr da na]
  have lines: "\<forall>r \<in> set ?rs. isUuid rt (matchIdOf r) \<and> fst (parseRecord rt r clearState) = None
             \<and> (\<exists>e. getCurrentMatchEntry (storage w1) (matchIdOf r) = Some e \<and> rawData e = r)"
  proof
    fix r assume r: "r \<in> set ?rs"
    then have "matchIdOf r \<notin> set ?removed" by simp
    with gen have "getProp (storage w1) (matchIdOf r) = getProp (storage wa) (matchIdOf r)"
      by blast
    from current_cong [OF this] processUpdates_current [OF pu assms(3)] r ok
    show "isUuid rt (matchIdOf r) \<and> fst (parseRecord rt r clearState) = None
             \<and> (\<exists>e. getCurrentMatchEntry (storage w1) (matchIdOf r) = Some e \<and> rawData e = r)"
      by simp
  qed
  from processUpdates_repeat [OF lines] obtain wb where
    wb: "processUpdates rt ?rs w1 = (None, wb, ?ids)" "storage wb = storage w1" by blast
  from inv1 wb(2) obtain live2 where
    live2: "getAllMatchIdsByStatus (statusString LIVE) (storage wb) = Inr live2"
    using getAll_Inr_iff [of "statusString LIVE" "storage wb"] by auto
  from inv1 wb(2) have db: "distinct (map fst (storage wb))" by simp
  note members2 = getAll_current [OF live2 db]
  have none: "filter (\<lambda>item. item \<notin> set ?ids) live2 = []"
  proof (rule ccontr)
    assume "filter (\<lambda>item. item \<notin> set ?ids) live2 \<noteq> []"
    then obtain k where k: "k \<in> set live2" "k \<notin> set ?ids"
      by (auto simp: filter_empty_conv)
    from k(1) members2 wb(2) obtain e where
      e: "getCurrentMatchEntry (storage w1) k = Some e" "matchStatus e = statusString LIVE"
      by auto
    show False
    proof (cases "k \<in> set ?removed")
      case True
      with gen obtain g where "getCurrentMatchEntry (storage w1) k = Some g"
        "matchStatus g = statusString REMOVED" by blast
      with e show False by simp
    next
      case False
      with gen have "getProp (storage w1) k = getProp (storage wa) k" by blast
      from current_cong [OF this] e
      have "getCurrentMatchEntry (storage wa) k = Some e \<and> matchStatus e = statusString LIVE"
        by simp
      then have "\<exists>e. getCurrentMatchEntry (storage wa) k = Some e \<and> matchStatus e = statusString LIVE"
        by blast
      with members have "k \<in> set live" by blast
      with k(2) False show False by simp
    qed
  qed
  from assms(2) wb(1) live2 none
  have "onEndpointChange_H rt u data w1 = (None, wb)"
    by (simp add: onEndpointChange_H_def markMissingLiveMatchesAsRemoved_def Let_def)
  with wb(2) show ?thesis by simp
qed


theorem missing_live_matches_become_removed_witness:
  "summary afterA = [(liveId, [(s1Record, ''LIVE'')]), (preId, [(preRecord, ''PRE'')])]
   \<and> fst (deliver storeEndpoint snapshotB afterA) = None
   \<and> (\<exists>g. getCurrentMatchEntry (storage (snd (deliver storeEndpoint snapshotB afterA))) liveId
             = Some g
        \<and> matchStatus g = ''REMOVED'' \<and> rawData g = ''(Generated)'')
   \<and> length (getMatchHistory (storage (snd (deliver storeEndpoint snapshotB afterA))) liveId) = 2
   \<and> getMatchHistory (storage (snd (deliver storeEndpoint snapshotB afterA))) preId
       = getMatchHistory (storage afterA) preId"
proof -
  let ?rt = "jsRuntime storeEndpoint"
  obtain rA wA where eA: "deliver storeEndpoint snapshotA newWorld = (rA, wA)"
    by (cases "deliver storeEndpoint snapshotA newWorld")
  obtain rB wB where eB: "deliver storeEndpoint snapshotB wA = (rB, wB)"
    by (cases "deliver storeEndpoint snapshotB wA")
  have chain: "case deliver storeEndpoint snapshotA newWorld of (rA, wA) \<Rightarrow>
                 (case deliver storeEndpoint snapshotB wA of (rB, wB) \<Rightarrow>
                    rB = None \<and> distinct (map fst (storage wA))
                    \<and> summary wA = [(liveId, [(s1Record, ''LIVE'')]), (preId, [(preRecord, ''PRE'')])]
                    \<and> map (\<lambda>e. (rawData e, matchStatus e)) (getMatchHistory (storage wA) liveId)
                        = [(s1Record, ''LIVE'')]
                    \<and> map (\<lambda>e. (rawData e, matchStatus e)) (getMatchHistory (storage wA) preId)
                        = [(preRecord, ''PRE'')])"
    by code_simp
  from chain eA eB have f: "rB = None" "distinct (map fst (storage wA))"
    "summary wA = [(liveId, [(s1Record, ''LIVE'')]), (preId, [(preRecord, ''PRE'')])]"
    "map (\<lambda>e. (rawData e, matchStatus e)) (getMatchHistory (storage wA) liveId)
        = [(s1Record, ''LIVE'')]"
    "map (\<lambda>e. (rawData e, matchStatus e)) (getMatchHistory (storage wA) preId)
        = [(preRecord, ''PRE'')]"
    by simp_all
  have j: "jsonOdds ?rt snapshotB = Inr []" by code_simp
  from eB f(1) have run: "onEndpointChange_H ?rt ''http://feed'' snapshotB wA = (None, wB)"
    by (simp add: deliver_def)
  note t = missing_live_matches_become_removed [OF f(2) j run]
  from f(4) obtain e where e: "getMatchHistory (storage wA) liveId = [e]"
    "matchStatus e = ''LIVE''" by auto
  then have l: "\<exists>e. getCurrentMatchEntry (storage wA) liveId = Some e
                   \<and> matchStatus e = statusString LIVE"
    by (auto simp: getMatchHistory_def getCurrentMatchEntry_def split: option.splits)
  from f(5) obtain e' where e': "getMatchHistory (storage wA) preId = [e']"
    "matchStatus e' = ''PRE''" by auto
  then have p: "\<not> (\<exists>e. getCurrentMatchEntry (storage wA) preId = Some e
                   \<and> matchStatus e = statusString LIVE)"
    by (auto simp: getMatchHistory_def getCurrentMatchEntry_def split: option.splits)
  have al: "liveId \<notin> set (map matchIdOf (snapshotRecords []))" by code_simp
  have ap: "preId \<notin> set (map matchIdOf (snapshotRecords []))" by code_simp
  from t l al obtain g where g: "getCurrentMatchEntry (storage wB) liveId = Some g"
    "matchStatus g = statusString REMOVED" "rawData g = ''(Generated)''"
    "getMatchHistory (storage wB) liveId = getMatchHistory (storage wA) liveId @ [g]"
    by blast
  from t p ap have keep: "getMatchHistory (storage wB) preId = getMatchHistory (storage wA) preId"
    by blast
  from g e keep f(1,3) eA eB show ?thesis by (auto simp: afterA_def)
qed

text \<open>
  C1, as stated, fails. After snapshot A the first match is \<open>LIVE\<close>. A snapshot that
  does not hold it and that has a line whose first field is no identifier, or a line of
  another match with start time \<open>0\<close>, throws in the loop over the lines, before the sweep:
  the first match keeps its \<open>LIVE\<close> entry as its current one and gets no generated entry.
\<close>

theorem failed_snapshot_leaves_live_match_counterexample:
  "(case deliver storeEndpoint snapshotA newWorld of
      (rA, wA) \<Rightarrow>
        rA = None
        \<and> summary wA = [(liveId, [(s1Record, ''LIVE'')]), (preId, [(preRecord, ''PRE'')])]
        \<and> liveId \<notin> set (map matchIdOf (snapshotRecords (preRecord @ [LF] @ badIdRecord)))
        \<and> liveId \<notin> set (map matchIdOf (snapshotRecords (preRecord @ [LF] @ zeroTimeRecord)))
        \<and> (case deliver storeEndpoint snapshotBadId wA of
             (rB, wB) \<Rightarrow>
               rB = Some (ValidationError ''Invalid match ID format'')
               \<and> summary wB = [(liveId, [(s1Record, ''LIVE'')]), (preId, [(preRecord, ''PRE'')])])
        \<and> (case deliver storeEndpoint snapshotZeroTime wA of
             (rC, wC) \<Rightarrow>
               rC = Some (ValidationError ''Match data not initialized. Call parseRecord first.'')
               \<and> summary wC = [(liveId, [(s1Record, ''LIVE'')]), (preId, [(preRecord, ''PRE'')])]))"
  by code_simp

theorem repeated_snapshot_changes_nothing_witness:
  "fst (deliver storeEndpoint snapshotA afterA) = None
   \<and> storage (snd (deliver storeEndpoint snapshotA afterA)) = storage afterA
   \<and> summary afterA = [(liveId, [(s1Record, ''LIVE'')]), (preId, [(preRecord, ''PRE'')])]"
proof -
  let ?rt = "jsRuntime storeEndpoint"
  obtain rA wA where eA: "deliver storeEndpoint snapshotA newWorld = (rA, wA)"
    by (cases "deliver storeEndpoint snapshotA newWorld")
  have chain: "case deliver storeEndpoint snapshotA newWorld of (rA, wA) \<Rightarrow>
                 rA = None
                 \<and> summary wA = [(liveId, [(s1Record, ''LIVE'')]), (preId, [(preRecord, ''PRE'')])]"
    by code_simp
  from chain eA have f: "rA = None"
    "summary wA = [(liveId, [(s1Record, ''LIVE'')]), (preId, [(preRecord, ''PRE'')])]"
    by simp_all
  have d: "distinct (map fst (storage newWorld))" by code_simp
  have j: "jsonOdds ?rt snapshotA = Inr (s1Record @ [LF] @ preRecord)" by code_simp
  have s: "\<forall>r \<in> set (snapshotRecords (s1Record @ [LF] @ preRecord)).
             \<forall>r' \<in> set (snapshotRecords (s1Record @ [LF] @ preRecord)).
               matchIdOf r = matchIdOf r' \<longrightarrow> r = r'" by code_simp
  from eA f(1) have run: "onEndpointChange_H ?rt ''http://feed'' snapshotA newWorld = (None, wA)"
    by (simp add: deliver_def)
  from repeated_snapshot_changes_nothing [OF d j s run] obtain w2 where
    "onEndpointChange_H ?rt ''http://feed'' snapshotA wA = (None, w2)"
    "storage w2 = storage wA" by blast
  with f(2) eA show ?thesis by (simp add: deliver_def afterA_def)
qed

text \<open>
  C2, as stated, fails. A snapshot with two different lines for one match adds two entries
  at every delivery, since each line differs from the entry that the other left: two
  entries after the first delivery, four after the second. And when the first delivery
  fails (here the resolver's request does), the second, which succeeds, adds an entry.
\<close>

theorem repeated_snapshot_grows_history_counterexample:
  "fst (deliver storeEndpoint snapshotDup newWorld) = None
   \<and> length (getMatchHistory
        (storage (snd (deliver storeEndpoint snapshotDup newWorld))) liveId) = 2
   \<and> fst (deliver storeEndpoint snapshotDup (snd (deliver storeEndpoint snapshotDup newWorld)))
       = None
   \<and> length (getMatchHistory
        (storage (snd (deliver storeEndpoint snapshotDup
                    (snd (deliver storeEndpoint snapshotDup newWorld))))) liveId) = 4
   \<and> fst (deliver lateEndpoint snapshotX newWorld) = Some NetworkError
   \<and> length (getMatchHistory
        (storage (snd (deliver lateEndpoint snapshotX newWorld))) liveId) = 0
   \<and> fst (deliver lateEndpoint snapshotX (snd (deliver lateEndpoint snapshotX newWorld))) = None
   \<and> length (getMatchHistory
        (storage (snd (deliver lateEndpoint snapshotX
                    (snd (deliver lateEndpoint snapshotX newWorld))))) liveId) = 1"
proof -
  obtain r1 w1 where e1: "deliver storeEndpoint snapshotDup newWorld = (r1, w1)"
    by (cases "deliver storeEndpoint snapshotDup newWorld")
  obtain r2 w2 where e2: "deliver storeEndpoint snapshotDup w1 = (r2, w2)"
    by (cases "deliver storeEndpoint snapshotDup w1")
  obtain r3 w3 where e3: "deliver lateEndpoint snapshotX newWorld = (r3, w3)"
    by (cases "deliver lateEndpoint snapshotX newWorld")
  obtain r4 w4 where e4: "deliver lateEndpoint snapshotX w3 = (r4, w4)"
    by (cases "deliver lateEndpoint snapshotX w3")
  have dup: "case deliver storeEndpoint snapshotDup newWorld of (r1, w1) \<Rightarrow>
               (case deliver storeEndpoint snapshotDup w1 of (r2, w2) \<Rightarrow>
                  r1 = None \<and> length (getMatchHistory (storage w1) liveId) = 2
                  \<and> r2 = None \<and> length (getMatchHistory (storage w2) liveId) = 4)"
    by code_simp
  have late: "case deliver lateEndpoint snapshotX newWorld of (r3, w3) \<Rightarrow>
               (case deliver lateEndpoint snapshotX w3 of (r4, w4) \<Rightarrow>
                  r3 = Some NetworkError \<and> length (getMatchHistory (storage w3) liveId) = 0
                  \<and> r4 = None \<and> length (getMatchHistory (storage w4) liveId) = 1)"
    by code_simp
  from dup late e1 e2 e3 e4 show ?thesis by simp
qed

section \<open>Properties: live-state projector\<close>

lemma deref_derefDict: "deref w d = derefDict (objects w) (dicts w ! d)"
  by (simp add: deref_def derefDict_def)

lemma wellFormed_validDict:
  "wellFormed w \<Longrightarrow> d < length (dicts w) \<Longrightarrow> validDict (objects w) (dicts w ! d)"
  by (simp add: wellFormed_def validDict_def list_all_length)

lemma derefDict_append:
  "validDict objs dict \<Longrightarrow> derefDict (objs @ extra) dict = derefDict objs dict"
  by (induction dict) (auto simp: derefDict_def validDict_def nth_append)

lemma validDict_append:
  "validDict objs dict \<Longrightarrow> validDict (objs @ extra) dict"
  by (induction dict) (auto simp: validDict_def)

lemma derefDict_setProp:
  "derefDict objs (setProp k a dict) = setProp k (objs ! a) (derefDict objs dict)"
  by (induction dict) (auto simp: derefDict_def)

lemma validDict_setProp:
  "validDict objs dict \<Longrightarrow> a < length objs \<Longrightarrow> validDict objs (setProp k a dict)"
  by (induction dict) (auto simp: validDict_def)

lemma included_iff: "included km \<longleftrightarrow> status (snd km) \<in> set INCLUDED_STATE_STATUSES"
  by (auto simp: included_def INCLUDED_STATE_STATUSES_def)

text \<open>What the loop leaves alone, however it ends.\<close>

lemma processRecords_frame:
  assumes "processRecords rt rs n w = (res, w')" "n < length (dicts w)"
    "validDict (objects w) (dicts w ! n)"
  shows "length (dicts w') = length (dicts w)
       \<and> (\<forall>d. d \<noteq> n \<longrightarrow> dicts w' ! d = dicts w ! d)
       \<and> (\<exists>extra. objects w' = objects w @ extra)
       \<and> currentState_L w' = currentState_L w
       \<and> storage w' = storage w \<and> clockReads w' = clockReads w
       \<and> validDict (objects w') (dicts w' ! n)"
  using assms
proof (induction rs arbitrary: w w' res)
  case Nil
  then show ?case by simp
next
  case (Cons r rs)
  obtain p mm1 where pr: "parseRecord rt r (matchMapper w) = (p, mm1)"
    by (cases "parseRecord rt r (matchMapper w)") auto
  define w1 where "w1 = w\<lparr>matchMapper := mm1\<rparr>"
  from pr have p: "parseRecord_W rt r w = (p, w1)"
    by (simp add: parseRecord_W_def w1_def)
  obtain q gm1 where rn: "renderMatchObject rt mm1 (guidMapper w) = (q, gm1)"
    by (cases "renderMatchObject rt mm1 (guidMapper w)") auto
  define w2 where "w2 = w1\<lparr>guidMapper := gm1\<rparr>"
  from rn have q: "renderMatchObject_W rt w1 = (q, w2)"
    by (simp add: renderMatchObject_W_def w1_def w2_def)
  have same: "dicts w1 = dicts w" "objects w1 = objects w"
    "currentState_L w1 = currentState_L w" "storage w1 = storage w" "clockReads w1 = clockReads w"
    "dicts w2 = dicts w" "objects w2 = objects w"
    "currentState_L w2 = currentState_L w" "storage w2 = storage w" "clockReads w2 = clockReads w"
    by (simp_all add: w1_def w2_def)
  show ?case
  proof (cases "p = None \<and> (\<exists>km. q = Inr km)")
    case False
    with Cons.prems(1) p q have "w' = w1 \<or> w' = w2"
      by (auto split: option.splits sum.splits)
    with same Cons.prems(2,3) show ?thesis by auto
  next
    case True
    then obtain k m where km: "p = None" "q = Inr (k, m)" by auto
    define w3 where "w3 = w2\<lparr>objects := objects w2 @ [m]\<rparr>"
    define w4 where "w4 = (if status m \<in> set INCLUDED_STATE_STATUSES
                          then w3\<lparr>dicts := (dicts w3)
                                   [n := setProp k (length (objects w2)) (dicts w3 ! n)]\<rparr>
                          else w3)"
    from Cons.prems(1) p q km have rec: "processRecords rt rs n w4 = (res, w')"
      by (cases "status m \<in> set INCLUDED_STATE_STATUSES") (simp_all add: w3_def w4_def Let_def)
    have o4: "objects w4 = objects w @ [m]"
      using same by (simp add: w4_def w3_def)
    have l4: "length (dicts w4) = length (dicts w)"
      using same by (simp add: w4_def w3_def)
    have d4: "\<forall>d. d \<noteq> n \<longrightarrow> dicts w4 ! d = dicts w ! d"
      using same by (simp add: w4_def w3_def)
    have c4: "currentState_L w4 = currentState_L w" "storage w4 = storage w"
      "clockReads w4 = clockReads w"
      using same by (simp_all add: w4_def w3_def)
    have v4: "validDict (objects w4) (dicts w4 ! n)"
    proof (cases "status m \<in> set INCLUDED_STATE_STATUSES")
      case False
      with same have "dicts w4 ! n = dicts w ! n" by (simp add: w4_def w3_def)
      with o4 validDict_append [OF Cons.prems(3)] show ?thesis by simp
    next
      case True
      with same Cons.prems(2) have "dicts w4 ! n = setProp k (length (objects w)) (dicts w ! n)"
        by (simp add: w4_def w3_def)
      with o4 validDict_setProp [OF validDict_append [OF Cons.prems(3), of "[m]"], of "length (objects w)" k]
      show ?thesis by simp
    qed
    from l4 Cons.prems(2) have n4: "n < length (dicts w4)" by simp
    from Cons.IH [OF rec n4 v4] o4 l4 d4 c4 show ?thesis by auto
  qed
qed


lemma processRecords_decode:
  assumes "processRecords rt rs n w = (None, w')" "n < length (dicts w)"
    "validDict (objects w) (dicts w ! n)"
  shows "\<exists>kms. decodeAll rt rs (matchMapper w) (guidMapper w) = Inr kms
           \<and> derefDict (objects w') (dicts w' ! n)
               = foldl includeMatch (derefDict (objects w) (dicts w ! n)) kms"
  using assms
proof (induction rs arbitrary: w w')
  case Nil
  then show ?case by simp
next
  case (Cons r rs)
  obtain p mm1 where pr: "parseRecord rt r (matchMapper w) = (p, mm1)"
    by (cases "parseRecord rt r (matchMapper w)") auto
  define w1 where "w1 = w\<lparr>matchMapper := mm1\<rparr>"
  from pr have p: "parseRecord_W rt r w = (p, w1)"
    by (simp add: parseRecord_W_def w1_def)
  obtain q gm1 where rn: "renderMatchObject rt mm1 (guidMapper w) = (q, gm1)"
    by (cases "renderMatchObject rt mm1 (guidMapper w)") auto
  define w2 where "w2 = w1\<lparr>guidMapper := gm1\<rparr>"
  from rn have q: "renderMatchObject_W rt w1 = (q, w2)"
    by (simp add: renderMatchObject_W_def w1_def w2_def)
  from Cons.prems(1) p q obtain k m where km: "p = None" "q = Inr (k, m)"
    by (auto split: option.splits sum.splits)
  define w3 where "w3 = w2\<lparr>objects := objects w2 @ [m]\<rparr>"
  define w4 where "w4 = (if status m \<in> set INCLUDED_STATE_STATUSES
                          then w3\<lparr>dicts := (dicts w3)
                                   [n := setProp k (length (objects w2)) (dicts w3 ! n)]\<rparr>
                          else w3)"
  from Cons.prems(1) p q km have rec: "processRecords rt rs n w4 = (None, w')"
    by (cases "status m \<in> set INCLUDED_STATE_STATUSES") (simp_all add: w3_def w4_def Let_def)
  have o4: "objects w4 = objects w @ [m]"
    by (simp add: w4_def w3_def w2_def w1_def)
  have l4: "length (dicts w4) = length (dicts w)"
    by (simp add: w4_def w3_def w2_def w1_def)
  have m4: "matchMapper w4 = mm1" "guidMapper w4 = gm1"
    by (simp_all add: w4_def w3_def w2_def w1_def)
  have step: "derefDict (objects w4) (dicts w4 ! n)
                = includeMatch (derefDict (objects w) (dicts w ! n)) (k, m)"
  proof (cases "status m \<in> set INCLUDED_STATE_STATUSES")
    case False
    then have "dicts w4 ! n = dicts w ! n" by (simp add: w4_def w3_def w2_def w1_def)
    with o4 derefDict_append [OF Cons.prems(3)] False show ?thesis
      by (simp add: includeMatch_def included_iff)
  next
    case True
    with Cons.prems(2) have "dicts w4 ! n = setProp k (length (objects w)) (dicts w ! n)"
      by (simp add: w4_def w3_def w2_def w1_def)
    with o4 derefDict_append [OF Cons.prems(3), of "[m]"] True show ?thesis
      by (simp add: includeMatch_def included_iff derefDict_setProp)
  qed
  have v4: "validDict (objects w4) (dicts w4 ! n)"
  proof (cases "status m \<in> set INCLUDED_STATE_STATUSES")
    case False
    then have "dicts w4 ! n = dicts w ! n" by (simp add: w4_def w3_def w2_def w1_def)
    with o4 validDict_append [OF Cons.prems(3)] show ?thesis by simp
  next
    case True
    with Cons.prems(2) have "dicts w4 ! n = setProp k (length (objects w)) (dicts w ! n)"
      by (simp add: w4_def w3_def w2_def w1_def)
    with o4 validDict_setProp [OF validDict_append [OF Cons.prems(3), of "[m]"], of "length (objects w)" k]
    show ?thesis by simp
  qed
  from l4 Cons.prems(2) have n4: "n < length (dicts w4)" by simp
  from Cons.IH [OF rec n4 v4] m4 obtain kms where
    kms: "decodeAll rt rs mm1 gm1 = Inr kms"
    "derefDict (objects w') (dicts w' ! n) = foldl includeMatch (derefDict (objects w4) (dicts w4 ! n)) kms"
    by auto
  from pr rn km kms(1) have "decodeAll rt (r # rs) (matchMapper w) (guidMapper w) = Inr ((k, m) # kms)"
    by simp
  with kms(2) step show ?case by simp
qed

lemma set_setProp_subset: "set (setProp k v m) \<subseteq> set m \<union> {(k, v)}"
  by (induction m) (auto split: if_splits)

lemma keys_setProp_set: "fst ` set (setProp k v m) = fst ` set m \<union> {k}"
proof -
  have "fst ` set (setProp k v m) = set (map fst (setProp k v m))" by simp
  also have "\<dots> = fst ` set m \<union> {k}" by (auto simp: keys_setProp)
  finally show ?thesis .
qed

lemma includeMatch_members: "set (includeMatch acc km) \<subseteq> set acc \<union> {x. x = km \<and> included km}"
  using set_setProp_subset [of "fst km" "snd km" acc]
  by (auto simp: includeMatch_def)

lemma foldl_includeMatch_members:
  "set (foldl includeMatch acc kms) \<subseteq> set acc \<union> {km \<in> set kms. included km}"
proof (induction kms arbitrary: acc)
  case Nil
  then show ?case by simp
next
  case (Cons km kms)
  from Cons.IH [of "includeMatch acc km"] includeMatch_members [of acc km]
  show ?case by auto
qed

lemma keys_includeMatch:
  "fst ` set (includeMatch acc km) = fst ` set acc \<union> (if included km then {fst km} else {})"
  by (simp add: includeMatch_def keys_setProp_set)

lemma foldl_includeMatch_keys:
  "fst ` set (foldl includeMatch acc kms) = fst ` set acc \<union> fst ` {km \<in> set kms. included km}"
proof (induction kms arbitrary: acc)
  case Nil
  then show ?case by simp
next
  case (Cons km kms)
  have "fst ` {x \<in> set (km # kms). included x}
          = (if included km then {fst km} else {}) \<union> fst ` {x \<in> set kms. included x}"
    by auto
  with Cons.IH [of "includeMatch acc km"] keys_includeMatch [of acc km]
  show ?case by (simp add: Un_assoc)
qed

lemma distinct_includeMatch:
  "distinct (map fst acc) \<Longrightarrow> distinct (map fst (foldl includeMatch acc kms))"
proof (induction kms arbitrary: acc)
  case Nil
  then show ?case by simp
next
  case (Cons km kms)
  from Cons.prems have "distinct (map fst (includeMatch acc km))"
    by (simp add: includeMatch_def distinct_setProp)
  from Cons.IH [OF this] show ?case by simp
qed

lemma includedView_exact:
  "(\<forall>km \<in> set (includedView kms). km \<in> set kms \<and> included km)
   \<and> (\<forall>km \<in> set kms. included km \<longrightarrow> fst km \<in> fst ` set (includedView kms))
   \<and> distinct (map fst (includedView kms))"
  using foldl_includeMatch_members [of "[]" kms] foldl_includeMatch_keys [of "[]" kms]
    distinct_includeMatch [of "[]" kms]
  by (auto simp: includedView_def)


lemma wellFormed_iff:
  "wellFormed w \<longleftrightarrow>
     currentState_L w < length (dicts w)
     \<and> (\<forall>d < length (dicts w). validDict (objects w) (dicts w ! d))"
  by (simp add: wellFormed_def validDict_def list_all_length)

lemma wellFormed_newWorld: "wellFormed newWorld"
  by (simp add: wellFormed_def newWorld_def)

text \<open>The loop of the projector, seen from a well-formed state with a new dictionary.\<close>

lemma onEndpointChange_L_loop:
  assumes "wellFormed w"
    "processRecords rt rs (length (dicts w)) (w\<lparr>dicts := dicts w @ [[]]\<rparr>) = (res, w2)"
  shows "length (dicts w2) = Suc (length (dicts w))
       \<and> currentState_L w2 = currentState_L w
       \<and> deref w2 (currentState_L w) = publicView w
       \<and> (\<forall>d < length (dicts w2). validDict (objects w2) (dicts w2 ! d))"
proof -
  let ?n = "length (dicts w)"
  let ?w1 = "w\<lparr>dicts := dicts w @ [[]]\<rparr>"
  from assms(1) have c: "currentState_L w < ?n"
    and v: "\<forall>d < ?n. validDict (objects w) (dicts w ! d)"
    by (simp_all add: wellFormed_iff)
  have n1: "?n < length (dicts ?w1)" by simp
  have v1: "validDict (objects ?w1) (dicts ?w1 ! ?n)" by (simp add: validDict_def)
  from processRecords_frame [OF assms(2) n1 v1] obtain extra where
    f: "length (dicts w2) = Suc ?n" "\<forall>d. d \<noteq> ?n \<longrightarrow> dicts w2 ! d = (dicts w @ [[]]) ! d"
    "objects w2 = objects w @ extra" "currentState_L w2 = currentState_L w"
    "validDict (objects w2) (dicts w2 ! ?n)"
    by auto
  have old: "\<And>d. d < ?n \<Longrightarrow> dicts w2 ! d = dicts w ! d"
    using f(2) by (simp add: nth_append)
  have "deref w2 (currentState_L w) = publicView w"
    using c old [OF c] f(3) derefDict_append [OF v [rule_format, OF c], of extra]
    by (simp add: deref_derefDict publicView_def)
  moreover have "\<forall>d < length (dicts w2). validDict (objects w2) (dicts w2 ! d)"
  proof (intro allI impI)
    fix d assume "d < length (dicts w2)"
    with f(1) consider "d < ?n" | "d = ?n" by linarith
    then show "validDict (objects w2) (dicts w2 ! d)"
    proof cases
      case 1
      with old [OF 1] f(3) validDict_append [OF v [rule_format, OF 1], of extra]
      show ?thesis by simp
    next
      case 2
      with f(5) show ?thesis by simp
    qed
  qed
  ultimately show ?thesis using f(1,4) by simp
qed

lemma onEndpointChange_L_success:
  assumes "wellFormed w" "jsonOdds rt data = Inr odds"
    "onEndpointChange_L rt u data w = (None, w')"
  shows "(\<exists>kms. decodeAll rt (filter (\<lambda>r. r \<noteq> []) (splitOn LF odds))
                  (matchMapper w) (guidMapper w) = Inr kms
               \<and> publicView w' = includedView kms)
       \<and> currentState_L w' = length (dicts w) \<and> wellFormed w'"
proof -
  let ?n = "length (dicts w)"
  let ?w1 = "w\<lparr>dicts := dicts w @ [[]]\<rparr>"
  let ?rs = "filter (\<lambda>r. r \<noteq> []) (splitOn LF odds)"
  obtain res w2 where pr: "processRecords rt ?rs ?n ?w1 = (res, w2)"
    by (cases "processRecords rt ?rs ?n ?w1") auto
  with assms(2,3) have r: "res = None" and w': "w' = w2\<lparr>currentState_L := ?n\<rparr>"
    by (auto simp: onEndpointChange_L_def Let_def split: option.splits)
  from pr r have pr': "processRecords rt ?rs ?n ?w1 = (None, w2)" by simp
  have n1: "?n < length (dicts ?w1)" by simp
  have v1: "validDict (objects ?w1) (dicts ?w1 ! ?n)" by (simp add: validDict_def)
  from processRecords_decode [OF pr' n1 v1] obtain kms where
    kms: "decodeAll rt ?rs (matchMapper w) (guidMapper w) = Inr kms"
    "derefDict (objects w2) (dicts w2 ! ?n) = foldl includeMatch [] kms"
    by (auto simp: derefDict_def)
  note loop = onEndpointChange_L_loop [OF assms(1) pr]
  from kms(2) w' have "publicView w' = includedView kms"
    by (simp add: publicView_def deref_derefDict includedView_def)
  moreover from loop w' have "wellFormed w'" by (simp add: wellFormed_iff)
  ultimately show ?thesis using kms(1) w' by auto
qed

lemma onEndpointChange_L_failure:
  assumes "wellFormed w" "onEndpointChange_L rt u data w = (Some e, w')"
  shows "currentState_L w' = currentState_L w \<and> publicView w' = publicView w \<and> wellFormed w'"
proof (cases "jsonOdds rt data")
  case (Inl err)
  with assms show ?thesis by (simp add: onEndpointChange_L_def)
next
  case (Inr odds)
  let ?n = "length (dicts w)"
  let ?w1 = "w\<lparr>dicts := dicts w @ [[]]\<rparr>"
  let ?rs = "filter (\<lambda>r. r \<noteq> []) (splitOn LF odds)"
  obtain res w2 where pr: "processRecords rt ?rs ?n ?w1 = (res, w2)"
    by (cases "processRecords rt ?rs ?n ?w1") auto
  with Inr assms(2) have w': "w' = w2"
    by (auto simp: onEndpointChange_L_def Let_def split: option.splits)
  note loop = onEndpointChange_L_loop [OF assms(1) pr]
  from assms(1) have c: "currentState_L w < ?n" by (simp add: wellFormed_iff)
  from loop w' c show ?thesis
    by (simp add: publicView_def wellFormed_iff)
qed

lemma getCurrentState_copy:
  assumes "wellFormed w" "getCurrentState w = (d, w')"
  shows "d \<noteq> currentState_L w'
       \<and> deref w' d = publicView w \<and> publicView w' = publicView w \<and> wellFormed w'
       \<and> (\<forall>k a. publicView (assignEntry d k a w') = publicView w')
       \<and> (\<forall>k. publicView (deleteEntry d k w') = publicView w')"
proof -
  from assms(1) have c: "currentState_L w < length (dicts w)"
    and v: "\<forall>x < length (dicts w). validDict (objects w) (dicts w ! x)"
    by (simp_all add: wellFormed_iff)
  from assms(2) have d: "d = length (dicts w)"
    and w': "w' = w\<lparr>dicts := dicts w @ [dicts w ! currentState_L w]\<rparr>"
    by (simp_all add: getCurrentState_def)
  from c d w' have ne: "d \<noteq> currentState_L w'" by simp
  from c d w' have copy: "deref w' d = publicView w"
    by (simp add: deref_def publicView_def)
  from c w' have view: "publicView w' = publicView w"
    by (simp add: deref_def publicView_def nth_append)
  have wf: "wellFormed w'"
    unfolding wellFormed_iff
  proof (intro conjI allI impI)
    from c w' show "currentState_L w' < length (dicts w')" by simp
  next
    fix x assume "x < length (dicts w')"
    with w' consider "x < length (dicts w)" | "x = length (dicts w)" by (auto simp: less_Suc_eq)
    then show "validDict (objects w') (dicts w' ! x)"
    proof cases
      case 1
      with v w' show ?thesis by (simp add: nth_append)
    next
      case 2
      with v c w' show ?thesis by simp
    qed
  qed
  have a: "\<forall>k a. publicView (assignEntry d k a w') = publicView w'"
    using ne by (simp add: assignEntry_def publicView_def deref_def)
  have b: "\<forall>k. publicView (deleteEntry d k w') = publicView w'"
    using ne by (simp add: deleteEntry_def publicView_def deref_def)
  from ne copy view wf a b show ?thesis by simp
qed

text \<open>
  C9, as the code has it. From a state of the object store in which every address in use is
  allocated: a notification that the projector processes to the end decodes every line of
  the snapshot, and leaves as the public view a new dictionary that holds exactly the
  decoded matches whose status is \<open>PRE\<close> or \<open>LIVE\<close> (every entry of the view is such a
  match, and every such match has its identifier in the view); a notification that fails
  leaves the reference to the public view and the view as they were, and the error reaches
  the poller through \<open>notifyListeners\<close>; and \<open>getCurrentState\<close> returns a new dictionary with
  the entries of the view, so that assigning or deleting an entry of the returned dictionary
  leaves the view as it is.
\<close>

theorem projector_swaps_view_or_keeps_it:
  assumes "wellFormed w"
  shows "(\<forall>w' odds. jsonOdds rt data = Inr odds
              \<and> onEndpointChange_L rt u data w = (None, w') \<longrightarrow>
            (\<exists>kms. decodeAll rt (filter (\<lambda>r. r \<noteq> []) (splitOn LF odds))
                      (matchMapper w) (guidMapper w) = Inr kms
                \<and> publicView w' = includedView kms
                \<and> (\<forall>km \<in> set (publicView w'). km \<in> set kms \<and> included km)
                \<and> (\<forall>km \<in> set kms. included km \<longrightarrow> fst km \<in> fst ` set (publicView w')))
            \<and> currentState_L w' = length (dicts w) \<and> wellFormed w')
       \<and> (\<forall>e w'. onEndpointChange_L rt u data w = (Some e, w') \<longrightarrow>
            currentState_L w' = currentState_L w \<and> publicView w' = publicView w
            \<and> wellFormed w'
            \<and> (\<forall>ls. notifyListeners (liveMatchStateListener rt # ls) u data w
                       = (Some e, w', [(0, u, data)])))
       \<and> (\<forall>d w'. getCurrentState w = (d, w') \<longrightarrow>
            d \<noteq> currentState_L w' \<and> deref w' d = publicView w
            \<and> publicView w' = publicView w \<and> wellFormed w'
            \<and> (\<forall>k a. publicView (assignEntry d k a w') = publicView w')
            \<and> (\<forall>k. publicView (deleteEntry d k w') = publicView w'))"
proof (intro conjI allI impI)
  fix w' odds
  assume h: "jsonOdds rt data = Inr odds \<and> onEndpointChange_L rt u data w = (None, w')"
  then have j: "jsonOdds rt data = Inr odds" and r: "onEndpointChange_L rt u data w = (None, w')"
    by simp_all
  from onEndpointChange_L_success [OF assms j r] obtain kms where
    kms: "decodeAll rt (filter (\<lambda>r. r \<noteq> []) (splitOn LF odds))
            (matchMapper w) (guidMapper w) = Inr kms"
    "publicView w' = includedView kms" by blast
  from kms includedView_exact [of kms]
  show "\<exists>kms. decodeAll rt (filter (\<lambda>r. r \<noteq> []) (splitOn LF odds))
                      (matchMapper w) (guidMapper w) = Inr kms
                \<and> publicView w' = includedView kms
                \<and> (\<forall>km \<in> set (publicView w'). km \<in> set kms \<and> included km)
                \<and> (\<forall>km \<in> set kms. included km \<longrightarrow> fst km \<in> fst ` set (publicView w'))"
    by auto
  from onEndpointChange_L_success [OF assms j r]
  show "currentState_L w' = length (dicts w)" "wellFormed w'" by simp_all
next
  fix e w'
  assume f: "onEndpointChange_L rt u data w = (Some e, w')"
  from onEndpointChange_L_failure [OF assms f]
  show "currentState_L w' = currentState_L w" "publicView w' = publicView w" "wellFormed w'"
    by simp_all
  fix ls
  from f show "notifyListeners (liveMatchStateListener rt # ls) u data w
                 = (Some e, w', [(0, u, data)])"
    by (simp add: liveMatchStateListener_def)
next
  fix d w'
  assume g: "getCurrentState w = (d, w')"
  from getCurrentState_copy [OF assms g]
  show "d \<noteq> currentState_L w'" "deref w' d = publicView w" "publicView w' = publicView w"
    "wellFormed w'" by simp_all
  fix k
  from getCurrentState_copy [OF assms g]
  show "publicView (deleteEntry d k w') = publicView w'" by simp
  fix a
  from getCurrentState_copy [OF assms g]
  show "publicView (assignEntry d k a w') = publicView w'" by simp
qed



text \<open>
  The three cases at work: a snapshot of a \<open>LIVE\<close> and a \<open>PRE\<close> match is projected from the
  initial state; a snapshot whose second line has six fields fails after its first line was
  entered in the new dictionary, and the view stays; a caller deletes an entry of the copy
  it was given.
\<close>

theorem projector_swaps_view_or_keeps_it_witness:
  "wellFormed newWorld
   \<and> (case project storeEndpoint snapshotA newWorld of (r1, w1) \<Rightarrow>
        r1 = None
        \<and> statuses (publicView w1) = [(liveId, ''LIVE''), (preId, ''PRE'')]
        \<and> currentState_L w1 = 1
        \<and> (case project storeEndpoint snapshotBad w1 of (r2, w2) \<Rightarrow>
             r2 = Some (ValidationError ''Invalid record format: expected 7 or 8 fields, got 6'')
             \<and> currentState_L w2 = 1
             \<and> publicView w2 = publicView w1
             \<and> fst (notifyListeners [liveMatchStateListener (jsRuntime storeEndpoint)]
                       ''http://feed'' snapshotBad w1) = r2
             \<and> (case getCurrentState w2 of (d, w3) \<Rightarrow>
                  d = 3
                  \<and> deref w3 d = publicView w1
                  \<and> statuses (deref (deleteEntry d liveId w3) d) = [(preId, ''PRE'')]
                  \<and> publicView (deleteEntry d liveId w3) = publicView w1)))"
proof -
  let ?rt = "jsRuntime storeEndpoint"
  let ?u = "''http://feed''"
  obtain r1 w1 where e1: "project storeEndpoint snapshotA newWorld = (r1, w1)"
    by (cases "project storeEndpoint snapshotA newWorld")
  obtain r2 w2 where e2: "project storeEndpoint snapshotBad w1 = (r2, w2)"
    by (cases "project storeEndpoint snapshotBad w1")
  obtain d w3 where e3: "getCurrentState w2 = (d, w3)"
    by (cases "getCurrentState w2")
  have chain: "case project storeEndpoint snapshotA newWorld of (r1, w1) \<Rightarrow>
        r1 = None
        \<and> statuses (publicView w1) = [(liveId, ''LIVE''), (preId, ''PRE'')]
        \<and> currentState_L w1 = 1
        \<and> (case project storeEndpoint snapshotBad w1 of (r2, w2) \<Rightarrow>
             r2 = Some (ValidationError ''Invalid record format: expected 7 or 8 fields, got 6'')
             \<and> (case getCurrentState w2 of (d, w3) \<Rightarrow>
                  d = 3
                  \<and> statuses (deref (deleteEntry d liveId w3) d) = [(preId, ''PRE'')]))"
    by code_simp
  from chain e1 e2 e3 have f: "r1 = None"
    "statuses (publicView w1) = [(liveId, ''LIVE''), (preId, ''PRE'')]"
    "currentState_L w1 = 1"
    "r2 = Some (ValidationError ''Invalid record format: expected 7 or 8 fields, got 6'')"
    "d = 3" "statuses (deref (deleteEntry d liveId w3) d) = [(preId, ''PRE'')]"
    by auto
  have wf0: "wellFormed newWorld" by (simp add: wellFormed_def newWorld_def)
  have j: "jsonOdds ?rt snapshotA = Inr (s1Record @ [LF] @ preRecord)" by code_simp
  from e1 f(1) have run1: "onEndpointChange_L ?rt ?u snapshotA newWorld = (None, w1)"
    by (simp add: project_def)
  from projector_swaps_view_or_keeps_it [OF wf0, of ?rt snapshotA ?u] j run1
  have wf1: "wellFormed w1" by blast
  from e2 f(4) have run2: "onEndpointChange_L ?rt ?u snapshotBad w1
      = (Some (ValidationError ''Invalid record format: expected 7 or 8 fields, got 6''), w2)"
    by (simp add: project_def)
  from projector_swaps_view_or_keeps_it [OF wf1, of ?rt snapshotBad ?u] run2
  have k: "currentState_L w2 = currentState_L w1" "publicView w2 = publicView w1"
    "wellFormed w2"
    "notifyListeners [liveMatchStateListener ?rt] ?u snapshotBad w1
       = (Some (ValidationError ''Invalid record format: expected 7 or 8 fields, got 6''), w2, [(0, ?u, snapshotBad)])"
    by blast+
  from projector_swaps_view_or_keeps_it [OF k(3), of ?rt snapshotBad ?u] e3
  have g: "deref w3 d = publicView w2" "publicView w3 = publicView w2"
    "publicView (deleteEntry d liveId w3) = publicView w3"
    by blast+
  from wf0 f k g e1 e2 e3 show ?thesis by simp
qed

text \<open>
  C9, as stated, fails in its last part. The copy is shallow: its entries refer to the match
  objects of the view. A caller that writes the status of a match of the copy it was given
  changes the public view, and what the next call of \<open>getCurrentState\<close> returns.
\<close>

theorem caller_writes_through_copy_counterexample:
  "(case project storeEndpoint snapshotX newWorld of (r1, w1) \<Rightarrow>
      r1 = None
      \<and> (case getCurrentState w1 of (d, w2) \<Rightarrow>
           d \<noteq> currentState_L w2
           \<and> statuses (publicView w2) = [(liveId, ''LIVE'')]
           \<and> statuses (publicView (assignField d liveId (withStatus ''REMOVED'') w2))
               = [(liveId, ''REMOVED'')]
           \<and> statuses (deref (snd (getCurrentState
                 (assignField d liveId (withStatus ''REMOVED'') w2))) (Suc d))
               = [(liveId, ''REMOVED'')]))"
  by code_simp

end
